theory Spec2Isabelle
  imports Main "HOL-Library.Sublist"
begin

text \<open>
  The repository holds three scripts that turn the text and the tables which a PDF library
  extracts from each page into a Markdown file: \<open>advanced_pdf_to_markdown.py\<close>,
  \<open>pdf_to_markdown.py\<close> and \<open>convert_pdf.py\<close>. This theory embeds their functions, with
  the library calls, the file system and the printed lines made explicit, and proves what
  the specification says of them. Where two scripts define a function of the same name,
  the one of \<open>advanced_pdf_to_markdown.py\<close> keeps the name and the other gets a suffix.
\<close>

section \<open>Python strings\<close>

text \<open>
  A Python \<open>str\<close> is a sequence of Unicode code points, and \<open>len\<close> counts code points.
  The scripts handle Chinese text, so a string is modelled as the list of its code points.
  Literals of the source that are plain ASCII are written \<open>ascii ''...''\<close>; the Chinese
  literals are written as their code points.
\<close>

type_synonym ustring = "nat list"

definition ascii :: "string \<Rightarrow> ustring" where
  "ascii s = map of_char s"

text \<open>
  Whitespace, as \<open>str.strip()\<close>, \<open>str.isspace()\<close> and the class \<open>\s\<close> of a \<open>str\<close>
  pattern see it: U+0009..U+000D, U+001C..U+0020, U+0085, U+00A0, U+1680, U+2000..U+200A,
  U+2028, U+2029, U+202F, U+205F and U+3000.
\<close>

definition is_space :: "nat \<Rightarrow> bool" where
  "is_space c \<longleftrightarrow>
     (9 \<le> c \<and> c \<le> 13) \<or> (28 \<le> c \<and> c \<le> 32) \<or> c = 133 \<or> c = 160 \<or> c = 5760 \<or>
     (8192 \<le> c \<and> c \<le> 8202) \<or> c = 8232 \<or> c = 8233 \<or> c = 8239 \<or> c = 8287 \<or> c = 12288"

text \<open>The class \<open>[ \t]\<close>: a space or a tab.\<close>

definition is_hspace :: "nat \<Rightarrow> bool" where
  "is_hspace c \<longleftrightarrow> c = 32 \<or> c = 9"

text \<open>\<open>s.strip()\<close>: whitespace removed at both ends.\<close>

definition lstrip :: "ustring \<Rightarrow> ustring" where
  "lstrip s = dropWhile is_space s"

definition rstrip :: "ustring \<Rightarrow> ustring" where
  "rstrip s = rev (dropWhile is_space (rev s))"

definition strip :: "ustring \<Rightarrow> ustring" where
  "strip s = rstrip (lstrip s)"

text \<open>\<open>s.replace(c, r)\<close> for a pattern \<open>c\<close> of one character.\<close>

definition replace_char :: "nat \<Rightarrow> ustring \<Rightarrow> ustring \<Rightarrow> ustring" where
  "replace_char c r s = concat (map (\<lambda>x. if x = c then r else [x]) s)"

text \<open>\<open>sep.join(xs)\<close>.\<close>

fun join :: "ustring \<Rightarrow> ustring list \<Rightarrow> ustring" where
  "join sep [] = []"
| "join sep [x] = x"
| "join sep (x # y # ys) = x @ sep @ join sep (y # ys)"

text \<open>\<open>s.split('\n\n')\<close>: the pieces between the occurrences of two line feeds, found
  from the left and not overlapping.\<close>

fun split_nn :: "ustring \<Rightarrow> ustring list" where
  "split_nn [] = [[]]"
| "split_nn [c] = [[c]]"
| "split_nn (c # d # cs) =
     (if c = 10 \<and> d = 10 then [] # split_nn cs
      else (case split_nn (d # cs) of p # ps \<Rightarrow> (c # p) # ps | [] \<Rightarrow> [[c]]))"

text \<open>\<open>str(n)\<close> for a non-negative integer: its decimal digits.\<close>

fun str_nat :: "nat \<Rightarrow> ustring" where
  "str_nat n = (if n < 10 then [48 + n] else str_nat (n div 10) @ [48 + n mod 10])"

declare str_nat.simps [simp del]

section \<open>The regular expression substitutions of \<open>clean_text\<close>\<close>

text \<open>
  \<open>re.sub(r'[ \t]+', ' ', text)\<close>: scanning from the left, each maximal run of spaces and
  tabs (the greedy \<open>+\<close>) is replaced by one space.
\<close>

function sub_hspace :: "ustring \<Rightarrow> ustring" where
  "sub_hspace [] = []"
| "sub_hspace (c # cs) =
     (if is_hspace c then 32 # sub_hspace (dropWhile is_hspace cs) else c # sub_hspace cs)"
  by pat_completeness auto
termination
  by (relation "measure length") (auto simp: length_dropWhile_le le_imp_less_Suc)

text \<open>
  \<open>re.sub(r'\s+', ' ', text)\<close>: each maximal run of whitespace is replaced by one space.
\<close>

function sub_space :: "ustring \<Rightarrow> ustring" where
  "sub_space [] = []"
| "sub_space (c # cs) =
     (if is_space c then 32 # sub_space (dropWhile is_space cs) else c # sub_space cs)"
  by pat_completeness auto
termination
  by (relation "measure length") (auto simp: length_dropWhile_le le_imp_less_Suc)

text \<open>
  The tail \<open>\s*\n\<close> of the pattern \<open>\n\s*\n\<close>, matched at the head of a string by the
  backtracking matcher: the greedy star first takes the next whitespace character and
  tries the rest; only when that fails does it stop and ask for the line feed here. The
  result is what follows the match, or \<open>None\<close> when there is no match.
\<close>

fun ws_nl :: "ustring \<Rightarrow> ustring option" where
  "ws_nl [] = None"
| "ws_nl (c # cs) =
     (if is_space c then
        (case ws_nl cs of
           Some r \<Rightarrow> Some r
         | None \<Rightarrow> if c = 10 then Some cs else None)
      else None)"

text \<open>
  \<open>re.sub(r'\n\s*\n', '\n\n', text)\<close>: scanning from the left, a line feed from which the
  pattern matches is replaced, with the whole match, by two line feeds, and the scan goes
  on after the match; any other character is copied.
\<close>

function sub_blank :: "ustring \<Rightarrow> ustring" where
  "sub_blank [] = []"
| "sub_blank (c # cs) =
     (if c = 10 then
        (case ws_nl cs of
           Some r \<Rightarrow> 10 # 10 # sub_blank r
         | None \<Rightarrow> c # sub_blank cs)
      else c # sub_blank cs)"
  by pat_completeness auto
termination
proof (relation "measure length")
  show "wf (measure length)" by simp
next
  fix c :: nat and cs r :: ustring
  assume "c = 10" and "ws_nl cs = Some r"
  have "ws_nl xs = Some r \<Longrightarrow> length r < length xs" for xs
    by (induction xs) (auto split: if_splits option.splits simp: less_Suc_eq)
  from this [OF \<open>ws_nl cs = Some r\<close>] show "(r, c # cs) \<in> measure length" by simp
next
  fix c :: nat and cs :: ustring
  show "(cs, c # cs) \<in> measure length" by simp
next
  fix c :: nat and cs :: ustring
  show "(cs, c # cs) \<in> measure length" by simp
qed

section \<open>\<open>clean_text\<close>\<close>

text \<open>The three replacements, in the order of the source: \<open>&\<close>, then \<open><\<close>, then \<open>>\<close>.\<close>

definition escape :: "ustring \<Rightarrow> ustring" where
  "escape s =
     replace_char 62 (ascii ''&gt;'')
       (replace_char 60 (ascii ''&lt;'')
         (replace_char 38 (ascii ''&amp;'') s))"

text \<open>
  \<open>clean_text\<close> of \<open>advanced_pdf_to_markdown.py\<close>. The argument is \<open>None\<close> or a string;
  \<open>not text\<close> holds for \<open>None\<close> and for the empty string.
\<close>

fun clean_text :: "ustring option \<Rightarrow> ustring" where
  "clean_text None = []"
| "clean_text (Some text) =
     (if text = [] then []
      else strip (escape (sub_blank (sub_hspace text))))"

text \<open>\<open>clean_text\<close> of \<open>pdf_to_markdown.py\<close>.\<close>

fun clean_text_basic :: "ustring option \<Rightarrow> ustring" where
  "clean_text_basic None = []"
| "clean_text_basic (Some text) =
     (if text = [] then []
      else escape (sub_space (strip text)))"

section \<open>Library tables taken as parameters\<close>

text \<open>
  Three things the scripts take from Python's Unicode database are not part of the
  repository: the case mapping behind \<open>str.upper()\<close>, the test \<open>str.isupper()\<close> and
  the class \<open>\d\<close> of decimal digits. They are parameters of the model, so every theorem
  stated for an arbitrary \<open>L\<close> holds for Python's own tables.
\<close>

record pylib =
  str_upper :: "ustring \<Rightarrow> ustring"
  str_isupper :: "ustring \<Rightarrow> bool"
  is_decimal :: "nat \<Rightarrow> bool"

text \<open>
  An instance to evaluate with. It is Python's behaviour on strings made of ASCII
  characters and CJK ideographs (which have no case and are not digits), the only strings
  it is applied to below.
\<close>

definition ascii_lib :: pylib where
  "ascii_lib =
     \<lparr> str_upper = map (\<lambda>c. if 97 \<le> c \<and> c \<le> 122 then c - 32 else c),
       str_isupper = (\<lambda>s. list_ex (\<lambda>c. 65 \<le> c \<and> c \<le> 90) s \<and> \<not> list_ex (\<lambda>c. 97 \<le> c \<and> c \<le> 122) s),
       is_decimal = (\<lambda>c. 48 \<le> c \<and> c \<le> 57) \<rparr>"

section \<open>Heading detection\<close>

text \<open>
  \<open>re.match(r'^\d+\.?\s+[A-Z]', s)\<close>, as the backtracking matcher runs it from the
  start of \<open>s\<close>, one function for each tail of the pattern: \<open>[A-Z]\<close>, \<open>\s+[A-Z]\<close>,
  \<open>\.?\s+[A-Z]\<close> and the whole \<open>\d+\.?\s+[A-Z]\<close>. A greedy quantifier first tries one
  more character and then the rest of the pattern.
\<close>

fun re_capital :: "ustring \<Rightarrow> bool" where
  "re_capital [] = False"
| "re_capital (c # cs) = (65 \<le> c \<and> c \<le> 90)"

fun re_spaces :: "ustring \<Rightarrow> bool" where
  "re_spaces [] = False"
| "re_spaces (c # cs) = (is_space c \<and> (re_spaces cs \<or> re_capital cs))"

fun re_dot :: "ustring \<Rightarrow> bool" where
  "re_dot [] = False"
| "re_dot (c # cs) = ((c = 46 \<and> re_spaces cs) \<or> re_spaces (c # cs))"

fun re_digits :: "(nat \<Rightarrow> bool) \<Rightarrow> ustring \<Rightarrow> bool" where
  "re_digits dg [] = False"
| "re_digits dg (c # cs) = (dg c \<and> (re_digits dg cs \<or> re_dot cs))"

definition numbered_match :: "pylib \<Rightarrow> ustring \<Rightarrow> bool" where
  "numbered_match L s = re_digits (is_decimal L) s"

text \<open>The nine keywords of \<open>heading_keywords\<close>, as code points.\<close>

definition heading_keywords :: "ustring list" where
  "heading_keywords =
     [[35268, 26684], [21442, 25968], [25216, 26415], [23610, 23544], [35828, 26126],
      [35201, 27714], [26631, 20934], [22411, 21495], [21517, 31216]]"

text \<open>
  \<open>detect_heading\<close> of \<open>advanced_pdf_to_markdown.py\<close>. Its second parameter
  \<open>font_sizes\<close> is never read and is left out. \<open>keyword in text\<close> is the test for a
  contiguous substring, \<open>sublist\<close>.
\<close>

definition detect_heading :: "pylib \<Rightarrow> ustring \<Rightarrow> bool" where
  "detect_heading L text =
     (if text = [] \<or> length (strip text) < 2 then False
      else if str_upper L (strip text) = strip text \<and> length (strip text) < 50 then True
      else if numbered_match L (strip text) then True
      else list_ex (\<lambda>keyword. sublist keyword text) heading_keywords)"

text \<open>
  The heading test of \<open>pdf_to_markdown.py\<close>, written inline in its page loop:
  \<open>len(paragraph.strip()) < 100 and paragraph.strip().isupper()\<close>.
\<close>

definition heading_test_basic :: "pylib \<Rightarrow> ustring \<Rightarrow> bool" where
  "heading_test_basic L paragraph \<longleftrightarrow>
     length (strip paragraph) < 100 \<and> str_isupper L (strip paragraph)"

section \<open>Tables\<close>

text \<open>
  A table is a list of rows, a row a list of cells, a cell a string or \<open>None\<close>. A cell
  is true in a condition when it is a string that is not empty.
\<close>

type_synonym cell = "ustring option"
type_synonym table = "cell list list"

definition truthy :: "cell \<Rightarrow> bool" where
  "truthy c = (case c of None \<Rightarrow> False | Some s \<Rightarrow> s \<noteq> [])"

text \<open>\<open>any(cell for cell in row if cell)\<close>\<close>

definition row_nonempty :: "cell list \<Rightarrow> bool" where
  "row_nonempty row = list_ex truthy row"

text \<open>\<open>table and any(any(cell for cell in row if cell) for row in table)\<close>\<close>

definition table_nonempty :: "table \<Rightarrow> bool" where
  "table_nonempty t \<longleftrightarrow> t \<noteq> [] \<and> list_ex row_nonempty t"

text \<open>\<open>str(cell) if cell else ""\<close>: a string cell as it is, \<open>None\<close> as the empty string.\<close>

definition cell_str :: "cell \<Rightarrow> ustring" where
  "cell_str c = (if truthy c then (case c of Some s \<Rightarrow> s | None \<Rightarrow> []) else [])"

text \<open>\<open>"| " + " | ".join(str(cell) if cell else "" for cell in row) + " |"\<close>\<close>

definition row_line :: "cell list \<Rightarrow> ustring" where
  "row_line row = ascii ''| '' @ join (ascii '' | '') (map cell_str row) @ ascii '' |''"

text \<open>\<open>"| " + " | ".join("---" for _ in row) + " |"\<close>\<close>

definition separator_line :: "cell list \<Rightarrow> ustring" where
  "separator_line row =
     ascii ''| '' @ join (ascii '' | '') (map (\<lambda>_. ascii ''---'') row) @ ascii '' |''"

text \<open>\<open>format_table\<close> of \<open>advanced_pdf_to_markdown.py\<close>.\<close>

definition format_table :: "table \<Rightarrow> ustring" where
  "format_table table_data =
     (if \<not> table_nonempty table_data then []
      else
        (case filter row_nonempty table_data of
           [] \<Rightarrow> []
         | header # data_rows \<Rightarrow>
             join (ascii ''\<newline>'')
               (row_line header # separator_line header # map row_line data_rows)))"

section \<open>Pages\<close>

text \<open>
  The page loops append strings to the list \<open>markdown_content\<close>; a page's contribution
  is modelled as the list of strings it appends, in order. For each script,
  \<open>render_page_\<dots>\<close> is the body of its loop over the pages, given the page number, the
  extracted text and the extracted tables.
\<close>

definition rule_line :: ustring where
  "rule_line = ascii ''---\<newline>\<newline>''"

subsection \<open>\<open>advanced_pdf_to_markdown.py\<close>\<close>

text \<open>The page header \<open>f"## \<dots> {page_num} \<dots>\n\n"\<close>, with U+7B2C before the number and
  U+9875 after it; \<open>pdf_to_markdown.py\<close> writes the same one.\<close>

definition page_heading :: "nat \<Rightarrow> ustring" where
  "page_heading page_num =
     ascii ''## '' @ [31532] @ ascii '' '' @ str_nat page_num @ ascii '' '' @ [39029]
       @ ascii ''\<newline>\<newline>''"

definition paragraph_advanced :: "pylib \<Rightarrow> ustring \<Rightarrow> ustring list" where
  "paragraph_advanced L paragraph =
     (if strip paragraph \<noteq> [] then
        (if detect_heading L (strip paragraph)
         then [ascii ''### '' @ strip paragraph @ ascii ''\<newline>\<newline>'']
         else [strip paragraph @ ascii ''\<newline>\<newline>''])
      else [])"

text \<open>The table heading \<open>f"### \<dots> {i+1}\n\n"\<close> (U+8868 U+683C before the number) and the
  formatted table, for the table at index \<open>i\<close>.\<close>

definition table_block_advanced :: "nat \<times> table \<Rightarrow> ustring list" where
  "table_block_advanced it =
     (case it of (i, table) \<Rightarrow>
        if table_nonempty table then
          [ascii ''### '' @ [34920, 26684] @ ascii '' '' @ str_nat (i + 1) @ ascii ''\<newline>\<newline>'']
          @ (let table_markdown = format_table table
             in if table_markdown \<noteq> [] then [table_markdown, ascii ''\<newline>\<newline>''] else [])
        else [])"

definition render_page_advanced :: "pylib \<Rightarrow> nat \<Rightarrow> ustring option \<Rightarrow> table list \<Rightarrow> ustring list" where
  "render_page_advanced L page_num text tables =
     (if truthy text then
        [page_heading page_num]
        @ concat (map (paragraph_advanced L) (split_nn (clean_text text)))
        @ [rule_line]
      else [])
     @ concat (map table_block_advanced (enumerate 0 tables))"

subsection \<open>\<open>pdf_to_markdown.py\<close>\<close>

definition paragraph_basic :: "pylib \<Rightarrow> ustring \<Rightarrow> ustring list" where
  "paragraph_basic L paragraph =
     (if strip paragraph \<noteq> [] then
        (if heading_test_basic L paragraph
         then [ascii ''### '' @ strip paragraph @ ascii ''\<newline>\<newline>'']
         else [strip paragraph @ ascii ''\<newline>\<newline>''])
      else [])"

text \<open>The table heading is the fixed line \<open>### \<dots>\n\n\<close> with U+8868 U+683C U+6570 U+636E;
  the rows are written inline, the first one as the header, none left out.\<close>

definition table_block_basic :: "table \<Rightarrow> ustring list" where
  "table_block_basic table =
     (if table_nonempty table then
        [ascii ''### '' @ [34920, 26684, 25968, 25454] @ ascii ''\<newline>\<newline>'',
         row_line (hd table) @ ascii ''\<newline>'',
         separator_line (hd table) @ ascii ''\<newline>'']
        @ map (\<lambda>row. row_line row @ ascii ''\<newline>'') (tl table)
        @ [ascii ''\<newline>'']
      else [])"

definition render_page_basic :: "pylib \<Rightarrow> nat \<Rightarrow> ustring option \<Rightarrow> table list \<Rightarrow> ustring list" where
  "render_page_basic L page_num text tables =
     (if truthy text then
        [page_heading page_num]
        @ concat (map (paragraph_basic L) (split_nn (clean_text_basic text)))
        @ [rule_line]
      else [])
     @ concat (map table_block_basic tables)"

subsection \<open>\<open>convert_pdf.py\<close>\<close>

definition page_heading_simple :: "nat \<Rightarrow> ustring" where
  "page_heading_simple page_num = ascii ''## Page '' @ str_nat page_num @ ascii ''\<newline>\<newline>''"

definition table_block_simple :: "nat \<times> table \<Rightarrow> ustring list" where
  "table_block_simple it =
     (case it of (i, table) \<Rightarrow>
        if table_nonempty table then
          [ascii ''### Table '' @ str_nat (i + 1) @ ascii ''\<newline>\<newline>'']
          @ map (\<lambda>row. row_line row @ ascii ''\<newline>'') (filter row_nonempty table)
          @ [ascii ''\<newline>'']
        else [])"

definition render_page_simple :: "nat \<Rightarrow> ustring option \<Rightarrow> table list \<Rightarrow> ustring list" where
  "render_page_simple page_num text tables =
     (case text of
        Some t \<Rightarrow>
          if t \<noteq> [] then [page_heading_simple page_num, strip t @ ascii ''\<newline>\<newline>'', rule_line]
          else []
      | None \<Rightarrow> [])
     @ concat (map table_block_simple (enumerate 0 tables))"

section \<open>Conversion: extraction, files and messages\<close>

text \<open>
  What the scripts get from outside is made explicit. An exception is modelled by its
  message \<open>str(e)\<close>. A page of the PDF answers \<open>extract_text()\<close> with a string or
  \<open>None\<close>, and \<open>extract_tables()\<close> with a list of tables, or either call raises.
\<close>

type_synonym exn = ustring

record page =
  extract_text :: "exn + ustring option"
  extract_tables :: "exn + table list"

text \<open>
  The environment: \<open>os.path.exists\<close>, \<open>Path(p).stem\<close>, \<open>pdfplumber.open(p)\<close> with
  \<open>pdf.pages\<close>, whether \<open>open(p, 'w', encoding='utf-8')\<close> raises, and whether writing a
  content to the opened file (up to the closing of the \<open>with\<close> block) raises, in
  which case the number says how many characters had reached the file.
\<close>

record env =
  path_exists :: "ustring \<Rightarrow> bool"
  path_stem :: "ustring \<Rightarrow> ustring"
  pdfplumber_open :: "ustring \<Rightarrow> exn + page list"
  open_w :: "ustring \<Rightarrow> exn option"
  write_all :: "ustring \<Rightarrow> ustring \<Rightarrow> (exn \<times> nat) option"

text \<open>
  The state the scripts change: the contents of the files they write, and a log of what
  they did, in order: a line printed, an attempt to open the PDF, an attempt to open the
  output file.
\<close>

datatype event = Printed ustring | PdfOpen ustring | OutputOpen ustring

record world =
  files :: "ustring \<rightharpoonup> ustring"
  events :: "event list"

definition emit :: "event \<Rightarrow> world \<Rightarrow> world" where
  "emit e w = w\<lparr>events := events w @ [e]\<rparr>"

text \<open>
  \<open>with open(output_path, 'w', encoding='utf-8') as f: f.write(content)\<close>. Opening in
  mode \<open>'w'\<close> creates the file or truncates it; this happens before anything is written.
\<close>

definition write_file :: "env \<Rightarrow> ustring \<Rightarrow> ustring \<Rightarrow> world \<Rightarrow> (exn + unit) \<times> world" where
  "write_file E output_path content w =
     (let w1 = emit (OutputOpen output_path) w in
      case open_w E output_path of
        Some e \<Rightarrow> (Inl e, w1)
      | None \<Rightarrow>
          (let w2 = w1\<lparr>files := (files w1)(output_path \<mapsto> [])\<rparr> in
           case write_all E output_path content of
             Some (e, n) \<Rightarrow> (Inl e, w2\<lparr>files := (files w2)(output_path \<mapsto> take n content)\<rparr>)
           | None \<Rightarrow> (Inr (), w2\<lparr>files := (files w2)(output_path \<mapsto> content)\<rparr>)))"

text \<open>The messages with a quoted path; the quote is U+0027.\<close>

definition not_found_message :: "ustring \<Rightarrow> ustring" where
  "not_found_message pdf_path =
     ascii ''Error: PDF file '' @ [39] @ pdf_path @ [39] @ ascii '' not found.''"

definition success_message :: "ustring \<Rightarrow> ustring \<Rightarrow> ustring" where
  "success_message pdf_path output_path =
     ascii ''Successfully converted '' @ [39] @ pdf_path @ [39] @ ascii '' to '' @ [39]
       @ output_path @ [39]"

text \<open>
  \<open>for page_num, page in enumerate(pdf.pages, 1)\<close>: the pages in order, numbered from the
  given number; the first exception ends the loop and is the result.
\<close>

fun pages_loop :: "(nat \<Rightarrow> page \<Rightarrow> exn + ustring list) \<Rightarrow> nat \<Rightarrow> page list \<Rightarrow> exn + ustring list" where
  "pages_loop body page_num [] = Inr []"
| "pages_loop body page_num (pg # pgs) =
     (case body page_num pg of
        Inl e \<Rightarrow> Inl e
      | Inr md \<Rightarrow>
          (case pages_loop body (Suc page_num) pgs of
             Inl e \<Rightarrow> Inl e
           | Inr rest \<Rightarrow> Inr (md @ rest)))"

text \<open>The body of the loop: the text is extracted first, then the tables.\<close>

definition page_advanced :: "pylib \<Rightarrow> nat \<Rightarrow> page \<Rightarrow> exn + ustring list" where
  "page_advanced L page_num pg =
     (case extract_text pg of
        Inl e \<Rightarrow> Inl e
      | Inr text \<Rightarrow>
          (case extract_tables pg of
             Inl e \<Rightarrow> Inl e
           | Inr tables \<Rightarrow> Inr (render_page_advanced L page_num text tables)))"

definition page_basic :: "pylib \<Rightarrow> nat \<Rightarrow> page \<Rightarrow> exn + ustring list" where
  "page_basic L page_num pg =
     (case extract_text pg of
        Inl e \<Rightarrow> Inl e
      | Inr text \<Rightarrow>
          (case extract_tables pg of
             Inl e \<Rightarrow> Inl e
           | Inr tables \<Rightarrow> Inr (render_page_basic L page_num text tables)))"

definition page_simple :: "nat \<Rightarrow> page \<Rightarrow> exn + ustring list" where
  "page_simple page_num pg =
     (case extract_text pg of
        Inl e \<Rightarrow> Inl e
      | Inr text \<Rightarrow>
          (case extract_tables pg of
             Inl e \<Rightarrow> Inl e
           | Inr tables \<Rightarrow> Inr (render_page_simple page_num text tables)))"

text \<open>The three lines at the head of the document. The title of the two larger scripts
  is fixed (\<open># DM4340\<close> and eight ideographs), the page count line starts with four.\<close>

definition document_header :: "nat \<Rightarrow> ustring list" where
  "document_header total_pages =
     [ascii ''# DM4340 '' @ [20943, 36895, 30005, 26426, 25216, 26415, 25991, 26723]
        @ ascii ''\<newline>\<newline>'',
      ascii ''*'' @ [25991, 26723, 39029, 25968] @ ascii '': '' @ str_nat total_pages
        @ ascii ''*\<newline>\<newline>'',
      rule_line]"

definition document_header_simple :: "ustring \<Rightarrow> nat \<Rightarrow> ustring list" where
  "document_header_simple stem total_pages =
     [ascii ''# '' @ stem @ ascii ''\<newline>\<newline>'',
      ascii ''*Converted from PDF - '' @ str_nat total_pages @ ascii '' pages*\<newline>\<newline>'',
      rule_line]"

text \<open>
  The document a script builds from a PDF, or the exception that ends the attempt:
  opening the PDF may raise, and so may any page.
\<close>

definition build_document ::
  "(nat \<Rightarrow> page \<Rightarrow> exn + ustring list) \<Rightarrow> (nat \<Rightarrow> ustring list) \<Rightarrow> env \<Rightarrow> ustring \<Rightarrow> exn + ustring" where
  "build_document body header E pdf_path =
     (case pdfplumber_open E pdf_path of
        Inl e \<Rightarrow> Inl e
      | Inr pages \<Rightarrow>
          (case pages_loop body 1 pages of
             Inl e \<Rightarrow> Inl e
           | Inr md \<Rightarrow> Inr (concat (header (length pages) @ md))))"

text \<open>\<open>extract_text_with_advanced_formatting\<close>: the whole body is inside \<open>try\<close>; on an
  exception the message is printed and \<open>None\<close> returned.\<close>

definition extract_text_with_advanced_formatting ::
  "pylib \<Rightarrow> env \<Rightarrow> ustring \<Rightarrow> world \<Rightarrow> ustring option \<times> world" where
  "extract_text_with_advanced_formatting L E pdf_path w =
     (let w1 = emit (PdfOpen pdf_path) w in
      case build_document (page_advanced L) document_header E pdf_path of
        Inl e \<Rightarrow> (None, emit (Printed (ascii ''Error processing PDF: '' @ e)) w1)
      | Inr markdown \<Rightarrow> (Some markdown, w1))"

text \<open>\<open>extract_text_with_formatting\<close> of \<open>pdf_to_markdown.py\<close>.\<close>

definition extract_text_with_formatting ::
  "pylib \<Rightarrow> env \<Rightarrow> ustring \<Rightarrow> world \<Rightarrow> ustring option \<times> world" where
  "extract_text_with_formatting L E pdf_path w =
     (let w1 = emit (PdfOpen pdf_path) w in
      case build_document (page_basic L) document_header E pdf_path of
        Inl e \<Rightarrow> (None, emit (Printed (ascii ''Error processing PDF: '' @ e)) w1)
      | Inr markdown \<Rightarrow> (Some markdown, w1))"

text \<open>The output path: the one given, or the stem of the input with an ending.\<close>

definition default_output :: "env \<Rightarrow> ustring \<Rightarrow> string \<Rightarrow> ustring option \<Rightarrow> ustring" where
  "default_output E pdf_path ending output_path =
     (case output_path of None \<Rightarrow> path_stem E pdf_path @ ascii ending | Some p \<Rightarrow> p)"

text \<open>The last step of the two larger scripts: the file is written inside its own
  \<open>try\<close>.\<close>

definition write_markdown :: "env \<Rightarrow> ustring \<Rightarrow> ustring \<Rightarrow> ustring \<Rightarrow> world \<Rightarrow> bool \<times> world" where
  "write_markdown E pdf_path output_path markdown_content w =
     (case write_file E output_path markdown_content w of
        (Inl e, w1) \<Rightarrow> (False, emit (Printed (ascii ''Error writing markdown file: '' @ e)) w1)
      | (Inr u, w1) \<Rightarrow> (True, emit (Printed (success_message pdf_path output_path)) w1))"

text \<open>\<open>pdf_to_markdown_advanced\<close>\<close>

definition pdf_to_markdown_advanced ::
  "pylib \<Rightarrow> env \<Rightarrow> ustring \<Rightarrow> ustring option \<Rightarrow> world \<Rightarrow> bool \<times> world" where
  "pdf_to_markdown_advanced L E pdf_path output_path w =
     (if \<not> path_exists E pdf_path then (False, emit (Printed (not_found_message pdf_path)) w)
      else
        (case extract_text_with_advanced_formatting L E pdf_path w of
           (None, w1) \<Rightarrow> (False, w1)
         | (Some markdown_content, w1) \<Rightarrow>
             write_markdown E pdf_path
               (default_output E pdf_path ''_advanced.md'' output_path) markdown_content w1))"

text \<open>\<open>pdf_to_markdown\<close> of \<open>pdf_to_markdown.py\<close>\<close>

definition pdf_to_markdown ::
  "pylib \<Rightarrow> env \<Rightarrow> ustring \<Rightarrow> ustring option \<Rightarrow> world \<Rightarrow> bool \<times> world" where
  "pdf_to_markdown L E pdf_path output_path w =
     (if \<not> path_exists E pdf_path then (False, emit (Printed (not_found_message pdf_path)) w)
      else
        (case extract_text_with_formatting L E pdf_path w of
           (None, w1) \<Rightarrow> (False, w1)
         | (Some markdown_content, w1) \<Rightarrow>
             write_markdown E pdf_path
               (default_output E pdf_path ''.md'' output_path) markdown_content w1))"

text \<open>\<open>pdf_to_markdown_simple\<close> of \<open>convert_pdf.py\<close>: one \<open>try\<close> around the extraction and
  the writing, one message for every exception.\<close>

definition pdf_to_markdown_simple ::
  "env \<Rightarrow> ustring \<Rightarrow> ustring option \<Rightarrow> world \<Rightarrow> bool \<times> world" where
  "pdf_to_markdown_simple E pdf_path output_path w =
     (if \<not> path_exists E pdf_path then (False, emit (Printed (not_found_message pdf_path)) w)
      else
        (let w1 = emit (PdfOpen pdf_path) w in
         case build_document page_simple (document_header_simple (path_stem E pdf_path)) E pdf_path of
           Inl e \<Rightarrow> (False, emit (Printed (ascii ''Error converting PDF: '' @ e)) w1)
         | Inr markdown \<Rightarrow>
             (case write_file E (default_output E pdf_path ''.md'' output_path) markdown w1 of
                (Inl e, w2) \<Rightarrow> (False, emit (Printed (ascii ''Error converting PDF: '' @ e)) w2)
              | (Inr u, w2) \<Rightarrow>
                  (True,
                   emit (Printed (success_message pdf_path
                     (default_output E pdf_path ''.md'' output_path))) w2))))"

section \<open>Predicates on strings\<close>

text \<open>What the claims say of a cleaned text, as predicates that can be evaluated.\<close>

text \<open>No tab, and no two spaces in a row.\<close>

fun no_hrun :: "ustring \<Rightarrow> bool" where
  "no_hrun [] = True"
| "no_hrun [c] = (c \<noteq> 9)"
| "no_hrun (c # d # cs) = (c \<noteq> 9 \<and> \<not> (c = 32 \<and> d = 32) \<and> no_hrun (d # cs))"

text \<open>
  No blank-line run left to collapse: from a line feed, the pattern \<open>\n\s*\n\<close> matches
  nothing, or exactly the two line feeds that stand there. In particular there are never
  three line feeds in a row, and no whitespace between two line feeds.
\<close>

fun blank_ok :: "ustring \<Rightarrow> bool" where
  "blank_ok [] = True"
| "blank_ok (c # cs) =
     ((c = 10 \<longrightarrow> ws_nl cs = None \<or> (case cs of [] \<Rightarrow> False | d # ds \<Rightarrow> d = 10 \<and> ws_nl ds = None))
      \<and> blank_ok cs)"

text \<open>Every whitespace character is a single space between two other characters, or
  the last character.\<close>

fun single_sp :: "ustring \<Rightarrow> bool" where
  "single_sp [] = True"
| "single_sp (c # cs) =
     ((is_space c \<longrightarrow> c = 32 \<and> (cs = [] \<or> \<not> is_space (hd cs))) \<and> single_sp cs)"

text \<open>None of \<open>&\<close>, \<open><\<close>, \<open>>\<close> occurs.\<close>

definition no_special :: "ustring \<Rightarrow> bool" where
  "no_special s \<longleftrightarrow> 38 \<notin> set s \<and> 60 \<notin> set s \<and> 62 \<notin> set s"

text \<open>No \<open><\<close>, no \<open>>\<close>, and every \<open>&\<close> starts one of \<open>&amp;\<close>, \<open>&lt;\<close>, \<open>&gt;\<close>.\<close>

fun escaped_ok :: "ustring \<Rightarrow> bool" where
  "escaped_ok [] = True"
| "escaped_ok (c # cs) =
     (c \<noteq> 60 \<and> c \<noteq> 62 \<and>
      (c = 38 \<longrightarrow> prefix (ascii ''amp;'') cs \<or> prefix (ascii ''lt;'') cs \<or> prefix (ascii ''gt;'') cs) \<and>
      escaped_ok cs)"

section \<open>Statements of the specification and examples\<close>

text \<open>
  The heading rule in the words of the specification, to compare the code with. A number
  followed by a capital letter: the string starts with one or more decimal digits, then an
  optional full stop, then one or more whitespace characters, then a letter \<open>A\<close> to \<open>Z\<close>.
\<close>

definition numbered_pattern :: "pylib \<Rightarrow> ustring \<Rightarrow> bool" where
  "numbered_pattern L s \<longleftrightarrow>
     (\<exists>ds dot ws c rest.
        s = ds @ dot @ ws @ c # rest \<and> ds \<noteq> [] \<and> list_all (is_decimal L) ds \<and>
        (dot = [] \<or> dot = [46]) \<and> ws \<noteq> [] \<and> list_all is_space ws \<and> 65 \<le> c \<and> c \<le> 90)"

text \<open>
  The rule as claimed: the trimmed text is its own upper-casing and shorter than the
  threshold, or it has the numbered pattern, or the text contains a keyword.
\<close>

definition is_heading_claimed :: "nat \<Rightarrow> pylib \<Rightarrow> ustring \<Rightarrow> bool" where
  "is_heading_claimed threshold L text \<longleftrightarrow>
     (str_upper L (strip text) = strip text \<and> length (strip text) < threshold)
     \<or> numbered_pattern L (strip text)
     \<or> (\<exists>keyword \<in> set heading_keywords. sublist keyword text)"

text \<open>No letter \<open>A\<close> to \<open>Z\<close> occurs.\<close>

fun no_capital :: "ustring \<Rightarrow> bool" where
  "no_capital [] = True"
| "no_capital (c # cs) = ((c < 65 \<or> 90 < c) \<and> no_capital cs)"

text \<open>The sentence of the specification's example.\<close>

definition long_sentence :: ustring where
  "long_sentence = ascii ''this is a long lowercase sentence that should not be a heading at all''"

text \<open>The table of the specification's example.\<close>

definition example_table :: table where
  "example_table =
     [[Some (ascii ''A''), Some (ascii ''B'')], [Some [], Some []],
      [Some (ascii ''1''), Some (ascii ''2'')]]"

text \<open>
  What an entry point owes its caller when the input exists, for the document \<open>d\<close> that
  extraction gives (or the exception), the output path \<open>out\<close>, the world \<open>w\<close> before and
  the result \<open>r\<close>: success is reported only when extraction, opening and writing all went
  well, and then the file holds the whole document; when extraction fails, failure is
  reported, no file changes and nothing is done after the attempt to open the PDF but
  printing one line; when the output cannot be opened, failure is reported and no file
  changes; when the output was opened and the write then raises after \<open>n\<close> characters,
  failure is reported, the output file is left with the first \<open>n\<close> characters of the
  document, and no other file changes.
\<close>

definition failure_contract ::
  "exn + ustring \<Rightarrow> env \<Rightarrow> ustring \<Rightarrow> ustring \<Rightarrow> world \<Rightarrow> bool \<times> world \<Rightarrow> bool" where
  "failure_contract d E pdf_path out w r \<longleftrightarrow>
     (fst r \<longrightarrow>
        (\<exists>md. d = Inr md \<and> open_w E out = None \<and> write_all E out md = None
              \<and> files (snd r) = (files w)(out \<mapsto> md)))
     \<and> (isl d \<longrightarrow>
          \<not> fst r \<and> files (snd r) = files w
          \<and> (\<exists>msg. events (snd r) = events w @ [PdfOpen pdf_path, Printed msg]))
     \<and> (\<not> isl d \<and> open_w E out \<noteq> None \<longrightarrow> \<not> fst r \<and> files (snd r) = files w)
     \<and> (\<forall>md e n.
          d = Inr md \<and> open_w E out = None \<and> write_all E out md = Some (e, n) \<longrightarrow>
            \<not> fst r \<and> files (snd r) = (files w)(out \<mapsto> take n md))"

text \<open>Worlds and environments to evaluate with: no file and nothing logged; a page with
  the text \<open>Hi\<close>; a page whose text extraction raises; an environment in which the write
  fails after 8 characters, one in which the second page raises, one in which the output
  cannot be opened, one in which nothing fails, and one without the input file.\<close>

definition empty_world :: world where
  "empty_world = \<lparr> files = Map.empty, events = [] \<rparr>"

definition page_hi :: page where
  "page_hi = \<lparr> extract_text = Inr (Some (ascii ''Hi'')), extract_tables = Inr [] \<rparr>"

definition page_broken :: page where
  "page_broken = \<lparr> extract_text = Inl (ascii ''bad page''), extract_tables = Inr [] \<rparr>"

definition env_write_fails :: env where
  "env_write_fails =
     \<lparr> path_exists = (\<lambda>p. True), path_stem = (\<lambda>p. ascii ''doc''),
       pdfplumber_open = (\<lambda>p. Inr [page_hi]),
       open_w = (\<lambda>p. None), write_all = (\<lambda>p c. Some (ascii ''disk full'', 8)) \<rparr>"

definition env_page_fails :: env where
  "env_page_fails =
     \<lparr> path_exists = (\<lambda>p. True), path_stem = (\<lambda>p. ascii ''doc''),
       pdfplumber_open = (\<lambda>p. Inr [page_hi, page_broken]),
       open_w = (\<lambda>p. None), write_all = (\<lambda>p c. None) \<rparr>"

definition env_open_fails :: env where
  "env_open_fails =
     \<lparr> path_exists = (\<lambda>p. True), path_stem = (\<lambda>p. ascii ''doc''),
       pdfplumber_open = (\<lambda>p. Inr [page_hi]),
       open_w = (\<lambda>p. Some (ascii ''denied'')), write_all = (\<lambda>p c. None) \<rparr>"

definition env_fine :: env where
  "env_fine =
     \<lparr> path_exists = (\<lambda>p. True), path_stem = (\<lambda>p. ascii ''doc''),
       pdfplumber_open = (\<lambda>p. Inr [page_hi]),
       open_w = (\<lambda>p. None), write_all = (\<lambda>p c. None) \<rparr>"

definition env_missing :: env where
  "env_missing =
     \<lparr> path_exists = (\<lambda>p. False), path_stem = (\<lambda>p. ascii ''doc''),
       pdfplumber_open = (\<lambda>p. Inr [page_hi]),
       open_w = (\<lambda>p. None), write_all = (\<lambda>p c. None) \<rparr>"

section \<open>Properties of the text functions\<close>

text \<open>The definitions to unfold when a text function is evaluated on a literal.\<close>

lemmas text_eval =
  ascii_def strip_def lstrip_def rstrip_def escape_def replace_char_def is_space_def
  is_hspace_def no_special_def

subsection \<open>Trimming on the right, by recursion\<close>

lemma rstrip_Nil [simp]: "rstrip [] = []"
  by (simp add: rstrip_def)

lemma rstrip_Cons:
  "rstrip (c # cs) = (if rstrip cs = [] \<and> is_space c then [] else c # rstrip cs)"
  by (auto simp: rstrip_def dropWhile_append)

lemma rstrip_append:
  "p \<noteq> [] \<Longrightarrow> \<not> is_space (last p) \<Longrightarrow> rstrip (p @ r) = p @ rstrip r"
proof -
  assume p: "p \<noteq> []" "\<not> is_space (last p)"
  then have "dropWhile is_space (rev p) = rev p"
    by (cases p rule: rev_cases) auto
  with p show ?thesis
    by (auto simp: rstrip_def dropWhile_append)
qed

lemma sub_hspace_head_not_space:
  "x = [] \<or> \<not> is_hspace (hd x) \<Longrightarrow> sub_hspace x = [] \<or> hd (sub_hspace x) \<noteq> 32"
  by (cases x) (auto simp: is_hspace_def)

lemma no_hrun_Cons: "no_hrun (c # cs) \<longleftrightarrow> c \<noteq> 9 \<and> (c = 32 \<longrightarrow> cs = [] \<or> hd cs \<noteq> 32) \<and> no_hrun cs"
  by (cases cs) auto

lemma sub_hspace_no_hrun: "no_hrun (sub_hspace s)"
proof (induction s rule: sub_hspace.induct)
  case 1
  show ?case by simp
next
  case (2 c cs)
  show ?case
  proof (cases "is_hspace c")
    case True
    have "dropWhile is_hspace cs = [] \<or> \<not> is_hspace (hd (dropWhile is_hspace cs))"
      using hd_dropWhile by blast
    then have "sub_hspace (dropWhile is_hspace cs) = [] \<or> hd (sub_hspace (dropWhile is_hspace cs)) \<noteq> 32"
      by (rule sub_hspace_head_not_space)
    with True 2 show ?thesis by (simp add: no_hrun_Cons)
  next
    case False
    then have "c = 32 \<longrightarrow> False" by (simp add: is_hspace_def)
    with False 2 show ?thesis by (auto simp add: no_hrun_Cons is_hspace_def)
  qed
qed

lemma no_hrun_fix: "no_hrun s \<Longrightarrow> sub_hspace s = s"
proof (induction s rule: no_hrun.induct)
  case (3 c d cs)
  then show ?case by (auto simp: is_hspace_def)
qed (auto simp: is_hspace_def)

subsection \<open>Blank-line runs\<close>

lemma ws_nl_Cons_None:
  "ws_nl (c # cs) = None \<longleftrightarrow> \<not> is_space c \<or> (ws_nl cs = None \<and> c \<noteq> 10)"
  by (auto split: option.splits)

lemma ws_nl_rest_None: "ws_nl cs = Some r \<Longrightarrow> ws_nl r = None"
  by (induction cs arbitrary: r) (auto split: if_splits option.splits)

lemma ws_nl_sub_blank: "ws_nl (sub_blank z) = None \<longleftrightarrow> ws_nl z = None"
proof (induction z rule: sub_blank.induct)
  case 1
  show ?case by simp
next
  case (2 c cs)
  show ?case
  proof (cases "c = 10")
    case True
    then show ?thesis by (auto simp: is_space_def split: option.splits)
  next
    case False
    with 2 show ?thesis by (auto split: option.splits)
  qed
qed

lemma sub_blank_blank_ok: "blank_ok (sub_blank s)"
proof (induction s rule: sub_blank.induct)
  case 1
  show ?case by simp
next
  case (2 c cs)
  show ?case
  proof (cases "c = 10")
    case False
    with 2 show ?thesis by simp
  next
    case True
    show ?thesis
    proof (cases "ws_nl cs")
      case None
      with True 2 show ?thesis by (simp add: ws_nl_sub_blank)
    next
      case (Some r)
      then have "ws_nl r = None" by (rule ws_nl_rest_None)
      with True Some 2 show ?thesis by (simp add: ws_nl_sub_blank)
    qed
  qed
qed

lemma blank_ok_fix: "blank_ok s \<Longrightarrow> sub_blank s = s"
proof (induction s rule: sub_blank.induct)
  case 1
  show ?case by simp
next
  case (2 c cs)
  show ?case
  proof (cases "c = 10")
    case False
    with 2 show ?thesis by simp
  next
    case True
    show ?thesis
    proof (cases "ws_nl cs")
      case None
      with True 2 show ?thesis by simp
    next
      case (Some r)
      with True "2.prems" obtain ds where cs: "cs = 10 # ds" and ds: "ws_nl ds = None"
        by (auto split: list.splits)
      with Some have r: "r = ds" by (simp add: is_space_def)
      from "2.prems" cs have "blank_ok ds" by simp
      with "2.IH" True Some r have "sub_blank ds = ds" by simp
      with True Some r cs show ?thesis by simp
    qed
  qed
qed

lemma blank_ok_dropWhile: "blank_ok s \<Longrightarrow> blank_ok (dropWhile P s)"
  by (induction s) auto

lemma ws_nl_rstrip: "ws_nl cs = None \<Longrightarrow> ws_nl (rstrip cs) = None"
proof (induction cs)
  case Nil
  show ?case by simp
next
  case (Cons c cs)
  from Cons.prems have "\<not> is_space c \<or> (ws_nl cs = None \<and> c \<noteq> 10)"
    by (simp only: ws_nl_Cons_None)
  with Cons.IH have "\<not> is_space c \<or> (ws_nl (rstrip cs) = None \<and> c \<noteq> 10)"
    by auto
  then have "ws_nl (c # rstrip cs) = None"
    by (simp only: ws_nl_Cons_None)
  then show ?case by (simp add: rstrip_Cons del: ws_nl.simps(2))
qed

lemma blank_ok_rstrip: "blank_ok s \<Longrightarrow> blank_ok (rstrip s)"
proof (induction s)
  case Nil
  show ?case by simp
next
  case (Cons c cs)
  then have ok: "blank_ok (rstrip cs)" by simp
  show ?case
  proof (cases "rstrip cs = [] \<and> is_space c")
    case True
    then show ?thesis by (simp add: rstrip_Cons)
  next
    case False
    have "ws_nl (rstrip cs) = None \<or>
          (case rstrip cs of [] \<Rightarrow> False | d # ds \<Rightarrow> d = 10 \<and> ws_nl ds = None)" if "c = 10"
    proof (cases "ws_nl cs")
      case None
      then show ?thesis by (simp add: ws_nl_rstrip)
    next
      case (Some r)
      with that Cons.prems obtain ds where cs: "cs = 10 # ds" and ds: "ws_nl ds = None"
        by (auto split: list.splits)
      then show ?thesis by (simp add: rstrip_Cons ws_nl_rstrip)
    qed
    with False ok show ?thesis by (simp add: rstrip_Cons)
  qed
qed

lemma blank_ok_strip: "blank_ok s \<Longrightarrow> blank_ok (strip s)"
  by (simp add: strip_def lstrip_def blank_ok_dropWhile blank_ok_rstrip)

subsection \<open>Runs of spaces and tabs\<close>

lemma no_hrun_tl: "no_hrun (c # cs) \<Longrightarrow> no_hrun cs"
  by (simp add: no_hrun_Cons)

lemma no_hrun_dropWhile: "no_hrun s \<Longrightarrow> no_hrun (dropWhile P s)"
  by (induction s) (auto simp: no_hrun_Cons)

lemma no_hrun_ws_nl: "ws_nl cs = Some r \<Longrightarrow> no_hrun cs \<Longrightarrow> no_hrun r"
  by (induction cs arbitrary: r) (auto simp: no_hrun_Cons split: if_splits option.splits)

lemma sub_blank_head: "sub_blank cs = [] \<or> hd (sub_blank cs) \<noteq> 32 \<longleftrightarrow> cs = [] \<or> hd cs \<noteq> 32"
  by (cases cs) (auto split: option.splits)

lemma no_hrun_sub_blank: "no_hrun s \<Longrightarrow> no_hrun (sub_blank s)"
proof (induction s rule: sub_blank.induct)
  case 1
  show ?case by simp
next
  case (2 c cs)
  from "2.prems" have tl: "no_hrun cs" by (rule no_hrun_tl)
  show ?case
  proof (cases "c = 10")
    case False
    with 2 tl show ?thesis using sub_blank_head [of cs] by (simp add: no_hrun_Cons)
  next
    case True
    show ?thesis
    proof (cases "ws_nl cs")
      case None
      with True 2 tl show ?thesis by (simp add: no_hrun_Cons)
    next
      case (Some r)
      with tl have "no_hrun r" by (simp add: no_hrun_ws_nl)
      with True Some 2 show ?thesis by (simp add: no_hrun_Cons)
    qed
  qed
qed

lemma rstrip_head: "rstrip cs = [] \<or> hd (rstrip cs) = hd cs"
  by (cases cs) (auto simp: rstrip_Cons)

lemma no_hrun_rstrip: "no_hrun s \<Longrightarrow> no_hrun (rstrip s)"
proof (induction s)
  case Nil
  show ?case by simp
next
  case (Cons c cs)
  then show ?case using rstrip_head [of cs]
    by (auto simp: no_hrun_Cons rstrip_Cons)
qed

lemma no_hrun_strip: "no_hrun s \<Longrightarrow> no_hrun (strip s)"
  by (simp add: strip_def lstrip_def no_hrun_dropWhile no_hrun_rstrip)

subsection \<open>Texts with nothing to escape\<close>

lemma replace_char_absent: "c \<notin> set s \<Longrightarrow> replace_char c r s = s"
  by (induction s) (auto simp: replace_char_def)

lemma escape_no_special: "no_special s \<Longrightarrow> escape s = s"
  by (simp add: no_special_def escape_def replace_char_absent)

lemma set_sub_hspace: "set (sub_hspace s) \<subseteq> insert 32 (set s)"
proof (induction s rule: sub_hspace.induct)
  case 1
  show ?case by simp
next
  case (2 c cs)
  have "set (dropWhile is_hspace cs) \<subseteq> set cs" by (auto dest: set_dropWhileD)
  with 2 show ?case by auto
qed

lemma set_sub_space: "set (sub_space s) \<subseteq> insert 32 (set s)"
proof (induction s rule: sub_space.induct)
  case 1
  show ?case by simp
next
  case (2 c cs)
  have "set (dropWhile is_space cs) \<subseteq> set cs" by (auto dest: set_dropWhileD)
  with 2 show ?case by auto
qed

lemma set_ws_nl: "ws_nl cs = Some r \<Longrightarrow> set r \<subseteq> set cs"
  by (induction cs arbitrary: r) (auto split: if_splits option.splits)

lemma set_sub_blank: "set (sub_blank s) \<subseteq> insert 10 (set s)"
proof (induction s rule: sub_blank.induct)
  case 1
  show ?case by simp
next
  case (2 c cs)
  show ?case
  proof (cases "c = 10")
    case False
    with 2 show ?thesis by auto
  next
    case True
    show ?thesis
    proof (cases "ws_nl cs")
      case None
      with True 2 show ?thesis by auto
    next
      case (Some r)
      with True 2 set_ws_nl [OF Some] show ?thesis by auto
    qed
  qed
qed

lemma set_rstrip: "set (rstrip s) \<subseteq> set s"
  by (auto simp: rstrip_def dest: set_dropWhileD)

lemma set_strip: "set (strip s) \<subseteq> set s"
  using set_rstrip [of "lstrip s"] by (auto simp: strip_def lstrip_def dest: set_dropWhileD)

lemma no_special_sub_hspace: "no_special s \<Longrightarrow> no_special (sub_hspace s)"
  using set_sub_hspace [of s] by (auto simp: no_special_def)

lemma no_special_sub_space: "no_special s \<Longrightarrow> no_special (sub_space s)"
  using set_sub_space [of s] by (auto simp: no_special_def)

lemma no_special_sub_blank: "no_special s \<Longrightarrow> no_special (sub_blank s)"
  using set_sub_blank [of s] by (auto simp: no_special_def)

lemma no_special_strip: "no_special s \<Longrightarrow> no_special (strip s)"
  using set_strip [of s] by (auto simp: no_special_def)

subsection \<open>Trimming and idempotence\<close>

lemma lstrip_fix: "s = [] \<or> \<not> is_space (hd s) \<Longrightarrow> lstrip s = s"
  by (cases s) (auto simp: lstrip_def)

lemma lstrip_head: "lstrip s = [] \<or> \<not> is_space (hd (lstrip s))"
  unfolding lstrip_def using hd_dropWhile by blast

lemma rstrip_idem: "rstrip (rstrip s) = rstrip s"
  by (simp add: rstrip_def)

lemma strip_head: "strip s = [] \<or> \<not> is_space (hd (strip s))"
  using lstrip_head [of s] rstrip_head [of "lstrip s"] by (auto simp: strip_def)

lemma strip_idem: "strip (strip s) = strip s"
proof -
  have "lstrip (strip s) = strip s"
    using strip_head by (rule lstrip_fix)
  then show ?thesis by (simp add: strip_def [of "strip s"]) (simp add: strip_def rstrip_idem)
qed

lemma clean_text_idem_adv:
  assumes "no_special s"
  shows "clean_text (Some (clean_text (Some s))) = clean_text (Some s)"
proof (cases "s = []")
  case True
  then show ?thesis by simp
next
  case False
  define x where "x = sub_blank (sub_hspace s)"
  define y where "y = strip x"
  have "no_special x"
    using assms by (simp add: x_def no_special_sub_blank no_special_sub_hspace)
  then have ex: "escape x = x" and ny: "no_special y"
    by (simp_all add: escape_no_special y_def no_special_strip)
  have cy: "clean_text (Some s) = y"
    using False ex by (simp add: x_def y_def)
  have "no_hrun x" by (simp add: x_def sub_hspace_no_hrun no_hrun_sub_blank)
  then have "no_hrun y" by (simp add: y_def no_hrun_strip)
  then have hy: "sub_hspace y = y" by (rule no_hrun_fix)
  have "blank_ok x" by (simp add: x_def sub_blank_blank_ok)
  then have "blank_ok y" by (simp add: y_def blank_ok_strip)
  then have by': "sub_blank y = y" by (rule blank_ok_fix)
  have sy: "strip y = y" by (simp add: y_def strip_idem)
  have "clean_text (Some y) = y"
    using hy by' sy ny by (simp add: escape_no_special)
  with cy show ?thesis by simp
qed

subsection \<open>The cleaning of \<open>pdf_to_markdown.py\<close>\<close>

lemma sub_space_head_not_space:
  "x = [] \<or> \<not> is_space (hd x) \<Longrightarrow> sub_space x = [] \<or> \<not> is_space (hd (sub_space x))"
  by (cases x) auto

lemma sub_space_single: "single_sp (sub_space s)"
proof (induction s rule: sub_space.induct)
  case 1
  show ?case by simp
next
  case (2 c cs)
  show ?case
  proof (cases "is_space c")
    case True
    have "dropWhile is_space cs = [] \<or> \<not> is_space (hd (dropWhile is_space cs))"
      using hd_dropWhile by blast
    then have "sub_space (dropWhile is_space cs) = []
        \<or> \<not> is_space (hd (sub_space (dropWhile is_space cs)))"
      by (rule sub_space_head_not_space)
    with True 2 show ?thesis by simp
  next
    case False
    with 2 show ?thesis by simp
  qed
qed

lemma single_sp_fix: "single_sp s \<Longrightarrow> sub_space s = s"
proof (induction s rule: sub_space.induct)
  case 1
  show ?case by simp
next
  case (2 c cs)
  show ?case
  proof (cases "is_space c")
    case True
    with "2.prems" have "dropWhile is_space cs = cs" by (cases cs) auto
    with True 2 show ?thesis by simp
  next
    case False
    with 2 show ?thesis by simp
  qed
qed

lemma rstrip_fix: "s = [] \<or> \<not> is_space (last s) \<Longrightarrow> rstrip s = s"
  by (cases s rule: rev_cases) (auto simp: rstrip_def)

lemma rstrip_last: "rstrip s = [] \<or> \<not> is_space (last (rstrip s))"
proof (cases "dropWhile is_space (rev s) = []")
  case True
  then show ?thesis by (simp add: rstrip_def)
next
  case False
  then have "\<not> is_space (hd (dropWhile is_space (rev s)))" by (rule hd_dropWhile)
  with False show ?thesis by (simp add: rstrip_def last_rev)
qed

lemma strip_last: "strip s = [] \<or> \<not> is_space (last (strip s))"
  by (simp add: strip_def rstrip_last)

lemma last_dropWhile: "dropWhile P xs \<noteq> [] \<Longrightarrow> last (dropWhile P xs) = last xs"
  by (induction xs) (auto split: if_splits)

lemma sub_space_last:
  "x \<noteq> [] \<Longrightarrow> \<not> is_space (last x) \<Longrightarrow> sub_space x \<noteq> [] \<and> last (sub_space x) = last x"
proof (induction x rule: sub_space.induct)
  case 1
  then show ?case by simp
next
  case (2 c cs)
  show ?case
  proof (cases "is_space c")
    case True
    with "2.prems" have cs: "cs \<noteq> []" "\<not> is_space (last cs)" by (auto split: if_splits)
    then have "last cs \<in> set cs" by simp
    with cs have ne: "dropWhile is_space cs \<noteq> []" by auto
    then have "last (dropWhile is_space cs) = last cs" by (rule last_dropWhile)
    with "2.IH"(1) [OF True] ne cs True show ?thesis by simp
  next
    case False
    with 2 show ?thesis by (cases cs) auto
  qed
qed

lemma strip_sub_space_strip: "strip (sub_space (strip s)) = sub_space (strip s)"
proof -
  let ?y = "sub_space (strip s)"
  have "?y = [] \<or> \<not> is_space (hd ?y)"
    using strip_head by (rule sub_space_head_not_space)
  then have l: "lstrip ?y = ?y" by (rule lstrip_fix)
  have "?y = [] \<or> \<not> is_space (last ?y)"
    using strip_last [of s] sub_space_last [of "strip s"] by (cases "strip s = []") auto
  then have "rstrip ?y = ?y" by (rule rstrip_fix)
  with l show ?thesis by (simp add: strip_def)
qed

lemma clean_text_idem_basic:
  assumes "no_special s"
  shows "clean_text_basic (Some (clean_text_basic (Some s))) = clean_text_basic (Some s)"
proof (cases "s = []")
  case True
  then show ?thesis by simp
next
  case False
  define y where "y = sub_space (strip s)"
  have ny: "no_special y"
    using assms by (simp add: y_def no_special_sub_space no_special_strip)
  then have cy: "clean_text_basic (Some s) = y"
    using False by (simp add: y_def escape_no_special)
  have sy: "strip y = y" by (simp add: y_def strip_sub_space_strip)
  have "sub_space y = y" by (simp add: y_def sub_space_single single_sp_fix)
  with sy ny have "clean_text_basic (Some y) = y"
    by (simp add: escape_no_special)
  with cy show ?thesis by simp
qed

subsection \<open>Escaping\<close>

lemma replace_char_append:
  "replace_char c r (a @ b) = replace_char c r a @ replace_char c r b"
  by (simp add: replace_char_def)

lemma escape_append: "escape (a @ b) = escape a @ escape b"
  by (simp add: escape_def replace_char_append)

lemma escape_single:
  "escape [c] = (if c = 38 then ascii ''&amp;'' else if c = 60 then ascii ''&lt;''
                 else if c = 62 then ascii ''&gt;'' else [c])"
  by (simp add: escape_def replace_char_def ascii_def)

lemma escape_Cons: "escape (c # cs) = escape [c] @ escape cs"
  using escape_append [of "[c]" cs] by simp

lemma escaped_ok_escape: "escaped_ok (escape s)"
proof (induction s)
  case Nil
  show ?case by (simp add: escape_def replace_char_def)
next
  case (Cons c cs)
  then show ?case
    by (simp add: escape_Cons [of c cs] escape_single ascii_def)
qed

lemma escaped_ok_dropWhile: "escaped_ok s \<Longrightarrow> escaped_ok (dropWhile P s)"
  by (induction s) auto

lemma prefix_rstrip:
  assumes "prefix p cs" "p \<noteq> []" "\<not> is_space (last p)"
  shows "prefix p (rstrip cs)"
proof -
  from assms(1) obtain r where "cs = p @ r" by (auto simp: prefix_def)
  with assms(2,3) show ?thesis by (simp add: rstrip_append)
qed

lemma escaped_ok_rstrip: "escaped_ok s \<Longrightarrow> escaped_ok (rstrip s)"
proof (induction s)
  case Nil
  show ?case by simp
next
  case (Cons c cs)
  have "prefix (ascii ''amp;'') (rstrip cs) \<or> prefix (ascii ''lt;'') (rstrip cs)
        \<or> prefix (ascii ''gt;'') (rstrip cs)" if "c = 38"
  proof -
    from that Cons.prems
    consider "prefix (ascii ''amp;'') cs" | "prefix (ascii ''lt;'') cs" | "prefix (ascii ''gt;'') cs"
      by auto
    then show ?thesis
    proof cases
      case 1
      then have "prefix (ascii ''amp;'') (rstrip cs)"
        by (rule prefix_rstrip) (simp_all add: ascii_def is_space_def)
      then show ?thesis by simp
    next
      case 2
      then have "prefix (ascii ''lt;'') (rstrip cs)"
        by (rule prefix_rstrip) (simp_all add: ascii_def is_space_def)
      then show ?thesis by simp
    next
      case 3
      then have "prefix (ascii ''gt;'') (rstrip cs)"
        by (rule prefix_rstrip) (simp_all add: ascii_def is_space_def)
      then show ?thesis by simp
    qed
  qed
  with Cons show ?case by (simp add: rstrip_Cons)
qed

lemma escaped_ok_strip: "escaped_ok s \<Longrightarrow> escaped_ok (strip s)"
  by (simp add: strip_def lstrip_def escaped_ok_dropWhile escaped_ok_rstrip)

section \<open>Properties of heading detection\<close>

lemma re_capital_iff: "re_capital s \<longleftrightarrow> (\<exists>c rest. s = c # rest \<and> 65 \<le> c \<and> c \<le> 90)"
  by (cases s) auto

lemma re_spaces_iff:
  "re_spaces s \<longleftrightarrow>
     (\<exists>ws c rest. s = ws @ c # rest \<and> ws \<noteq> [] \<and> list_all is_space ws \<and> 65 \<le> c \<and> c \<le> 90)"
proof (induction s)
  case Nil
  show ?case by simp
next
  case (Cons x xs)
  show ?case
  proof
    assume "re_spaces (x # xs)"
    then have x: "is_space x" and d: "re_spaces xs \<or> re_capital xs" by simp_all
    from d show "\<exists>ws c rest. x # xs = ws @ c # rest \<and> ws \<noteq> [] \<and> list_all is_space ws \<and> 65 \<le> c \<and> c \<le> 90"
    proof
      assume "re_spaces xs"
      with Cons.IH obtain ws c rest where
        "xs = ws @ c # rest" "list_all is_space ws" "65 \<le> c" "c \<le> 90" by blast
      with x have "x # xs = (x # ws) @ c # rest \<and> x # ws \<noteq> [] \<and> list_all is_space (x # ws) \<and> 65 \<le> c \<and> c \<le> 90"
        by simp
      then show ?thesis by blast
    next
      assume "re_capital xs"
      then obtain c rest where "xs = c # rest" "65 \<le> c" "c \<le> 90"
        by (auto simp: re_capital_iff)
      with x have "x # xs = [x] @ c # rest \<and> [x] \<noteq> [] \<and> list_all is_space [x] \<and> 65 \<le> c \<and> c \<le> 90"
        by simp
      then show ?thesis by blast
    qed
  next
    assume "\<exists>ws c rest. x # xs = ws @ c # rest \<and> ws \<noteq> [] \<and> list_all is_space ws \<and> 65 \<le> c \<and> c \<le> 90"
    then obtain ws c rest where
      e: "x # xs = ws @ c # rest" and ne: "ws \<noteq> []" and sp: "list_all is_space ws"
      and c: "65 \<le> c" "c \<le> 90" by blast
    from ne obtain w ws' where ws: "ws = w # ws'" by (cases ws) auto
    with e sp have x: "is_space x" and xs: "xs = ws' @ c # rest" and sp': "list_all is_space ws'"
      by simp_all
    show "re_spaces (x # xs)"
    proof (cases "ws' = []")
      case True
      with xs c x show ?thesis by simp
    next
      case False
      with xs sp' c Cons.IH have "re_spaces xs" by blast
      with x show ?thesis by simp
    qed
  qed
qed

lemma re_dot_iff:
  "re_dot s \<longleftrightarrow> (\<exists>dot t. s = dot @ t \<and> (dot = [] \<or> dot = [46]) \<and> re_spaces t)"
proof (cases s)
  case Nil
  then show ?thesis by simp
next
  case (Cons x xs)
  show ?thesis
  proof
    assume "re_dot s"
    with Cons have "(x = 46 \<and> re_spaces xs) \<or> re_spaces s" by simp
    then show "\<exists>dot t. s = dot @ t \<and> (dot = [] \<or> dot = [46]) \<and> re_spaces t"
    proof
      assume "x = 46 \<and> re_spaces xs"
      with Cons have "s = [46] @ xs \<and> ([46::nat] = [] \<or> [46::nat] = [46]) \<and> re_spaces xs" by simp
      then show ?thesis by blast
    next
      assume "re_spaces s"
      then have "s = [] @ s \<and> (([]::nat list) = [] \<or> ([]::nat list) = [46]) \<and> re_spaces s" by simp
      then show ?thesis by blast
    qed
  next
    assume "\<exists>dot t. s = dot @ t \<and> (dot = [] \<or> dot = [46]) \<and> re_spaces t"
    then obtain dot t where "s = dot @ t" "dot = [] \<or> dot = [46]" "re_spaces t" by blast
    with Cons show "re_dot s" by auto
  qed
qed

lemma re_digits_iff:
  "re_digits dg s \<longleftrightarrow> (\<exists>ds t. s = ds @ t \<and> ds \<noteq> [] \<and> list_all dg ds \<and> re_dot t)"
proof (induction s)
  case Nil
  show ?case by simp
next
  case (Cons x xs)
  show ?case
  proof
    assume "re_digits dg (x # xs)"
    then have x: "dg x" and d: "re_digits dg xs \<or> re_dot xs" by simp_all
    from d show "\<exists>ds t. x # xs = ds @ t \<and> ds \<noteq> [] \<and> list_all dg ds \<and> re_dot t"
    proof
      assume "re_digits dg xs"
      with Cons.IH obtain ds t where "xs = ds @ t" "list_all dg ds" "re_dot t" by blast
      with x have "x # xs = (x # ds) @ t \<and> x # ds \<noteq> [] \<and> list_all dg (x # ds) \<and> re_dot t" by simp
      then show ?thesis by blast
    next
      assume "re_dot xs"
      with x have "x # xs = [x] @ xs \<and> [x] \<noteq> [] \<and> list_all dg [x] \<and> re_dot xs" by simp
      then show ?thesis by blast
    qed
  next
    assume "\<exists>ds t. x # xs = ds @ t \<and> ds \<noteq> [] \<and> list_all dg ds \<and> re_dot t"
    then obtain ds t where e: "x # xs = ds @ t" and ne: "ds \<noteq> []" and dg: "list_all dg ds"
      and t: "re_dot t" by blast
    from ne obtain d ds' where ds: "ds = d # ds'" by (cases ds) auto
    with e dg have x: "dg x" and xs: "xs = ds' @ t" and dg': "list_all dg ds'" by simp_all
    show "re_digits dg (x # xs)"
    proof (cases "ds' = []")
      case True
      with xs t x show ?thesis by simp
    next
      case False
      with xs dg' t Cons.IH have "re_digits dg xs" by blast
      with x show ?thesis by simp
    qed
  qed
qed

lemma numbered_match_iff: "numbered_match L s \<longleftrightarrow> numbered_pattern L s"
proof
  assume "numbered_match L s"
  then obtain ds t where 1: "s = ds @ t" "ds \<noteq> []" "list_all (is_decimal L) ds" and "re_dot t"
    unfolding numbered_match_def re_digits_iff by blast
  then obtain dot t' where 2: "t = dot @ t'" "dot = [] \<or> dot = [46]" and "re_spaces t'"
    unfolding re_dot_iff by blast
  then obtain ws c rest where 3: "t' = ws @ c # rest" "ws \<noteq> []" "list_all is_space ws" "65 \<le> c" "c \<le> 90"
    unfolding re_spaces_iff by blast
  from 1 2 3 have "s = ds @ dot @ ws @ c # rest" by simp
  with 1 2 3 show "numbered_pattern L s" unfolding numbered_pattern_def by blast
next
  assume "numbered_pattern L s"
  then obtain ds dot ws c rest where
    s: "s = ds @ dot @ ws @ c # rest" and ds: "ds \<noteq> []" "list_all (is_decimal L) ds"
    and dot: "dot = [] \<or> dot = [46]" and ws: "ws \<noteq> []" "list_all is_space ws"
    and c: "65 \<le> c" "c \<le> 90"
    unfolding numbered_pattern_def by blast
  from ws c have "re_spaces (ws @ c # rest)" unfolding re_spaces_iff by blast
  with dot have "re_dot (dot @ ws @ c # rest)" unfolding re_dot_iff by blast
  with ds have "re_digits (is_decimal L) (ds @ dot @ ws @ c # rest)"
    unfolding re_digits_iff by blast
  with s show "numbered_match L s" by (simp add: numbered_match_def)
qed

lemma detect_heading_iff:
  "detect_heading L text \<longleftrightarrow> 2 \<le> length (strip text) \<and> is_heading_claimed 50 L text"
proof (cases "length (strip text) < 2")
  case True
  then show ?thesis by (simp add: detect_heading_def)
next
  case False
  then have "strip text \<noteq> []" by auto
  then have "text \<noteq> []" by (auto simp: strip_def lstrip_def)
  with False show ?thesis
    by (auto simp: detect_heading_def is_heading_claimed_def numbered_match_iff list_ex_iff)
qed

lemma no_capital_re_spaces: "no_capital s \<Longrightarrow> \<not> re_spaces s"
proof (induction s)
  case Nil
  show ?case by simp
next
  case (Cons c cs)
  then have "\<not> re_spaces cs" by simp
  moreover from Cons.prems have "\<not> re_capital cs" by (cases cs) auto
  ultimately show ?case by simp
qed

lemma no_capital_re_dot: "no_capital s \<Longrightarrow> \<not> re_dot s"
proof (cases s)
  case Nil
  then show ?thesis by simp
next
  case (Cons c cs)
  assume n: "no_capital s"
  with Cons have "no_capital cs" by simp
  then have "\<not> re_spaces cs" by (rule no_capital_re_spaces)
  moreover from n have "\<not> re_spaces s" by (rule no_capital_re_spaces)
  ultimately show ?thesis using Cons by simp
qed

lemma no_capital_re_digits: "no_capital s \<Longrightarrow> \<not> re_digits dg s"
proof (induction s)
  case Nil
  show ?case by simp
next
  case (Cons c cs)
  then have "\<not> re_digits dg cs" by simp
  moreover from Cons.prems have "\<not> re_dot cs" by (simp add: no_capital_re_dot)
  ultimately show ?case by simp
qed

lemma long_sentence_strip: "strip long_sentence = long_sentence"
  by (simp add: long_sentence_def text_eval)

lemma long_sentence_length: "length long_sentence = 69"
  by (simp add: long_sentence_def ascii_def)

lemma long_sentence_no_capital: "no_capital long_sentence"
  by (simp add: long_sentence_def ascii_def)

lemma long_sentence_no_keyword: "\<not> list_ex (\<lambda>keyword. sublist keyword long_sentence) heading_keywords"
  by (simp add: long_sentence_def ascii_def heading_keywords_def sublist_code)

lemma long_sentence_not_heading: "\<not> detect_heading L long_sentence"
  using no_capital_re_digits [OF long_sentence_no_capital] long_sentence_no_keyword
  by (simp add: detect_heading_def long_sentence_strip long_sentence_length numbered_match_def)

lemma keyword_heading: "detect_heading L [35268, 26684]"
  by (simp add: detect_heading_def text_eval heading_keywords_def)

section \<open>Properties of tables and pages\<close>

lemmas table_eval =
  truthy_def row_nonempty_def table_nonempty_def cell_str_def row_line_def separator_line_def
  format_table_def

lemma all_empty_not_nonempty:
  assumes "\<forall>row \<in> set t. \<forall>c \<in> set row. c = None \<or> c = Some []"
  shows "\<not> table_nonempty t"
proof -
  have "\<not> row_nonempty row" if "row \<in> set t" for row
  proof -
    have "\<not> truthy c" if "c \<in> set row" for c
    proof -
      from assms \<open>row \<in> set t\<close> that have "c = None \<or> c = Some []" by blast
      then show ?thesis by (auto simp: truthy_def)
    qed
    then show ?thesis by (auto simp: row_nonempty_def list_ex_iff)
  qed
  then show ?thesis by (auto simp: table_nonempty_def list_ex_iff)
qed

lemma row_line_head: "row_line row = 124 # 32 # tl (tl (row_line row))"
  by (simp add: row_line_def ascii_def)

lemma separator_line_head: "separator_line row = 124 # 32 # tl (tl (separator_line row))"
  by (simp add: separator_line_def ascii_def)

lemma format_table_head: "format_table t = [] \<or> hd (format_table t) = 124"
proof (cases "filter row_nonempty t")
  case Nil
  then show ?thesis by (simp add: format_table_def)
next
  case (Cons h rest)
  have "hd (row_line h @ r) = 124" for r
    by (subst row_line_head) simp
  with Cons show ?thesis by (simp add: format_table_def)
qed

lemma page_heading_head: "page_heading m = 35 # 35 # 32 # drop 3 (page_heading m)"
  by (simp add: page_heading_def ascii_def)

lemma page_heading_simple_head: "page_heading_simple m = 35 # 35 # 32 # drop 3 (page_heading_simple m)"
  by (simp add: page_heading_simple_def ascii_def)

lemma rule_line_eq: "rule_line = [45, 45, 45, 10, 10]"
  by (simp add: rule_line_def ascii_def)

lemma table_block_advanced_elems:
  assumes "x \<in> set (table_block_advanced it)"
  shows "x \<noteq> page_heading m \<and> x \<noteq> rule_line"
proof -
  obtain i t where it: "it = (i, t)" by (cases it)
  from assms it consider
    "x = ascii ''### '' @ [34920, 26684] @ ascii '' '' @ str_nat (i + 1) @ ascii ''\<newline>\<newline>''"
    | "x = format_table t" "format_table t \<noteq> []"
    | "x = ascii ''\<newline>\<newline>''"
    by (auto simp: table_block_advanced_def Let_def split: if_splits)
  then show ?thesis
  proof cases
    case 1
    then have "x ! 2 = 35" by (simp add: ascii_def)
    moreover have "page_heading m ! 2 = 32" by (subst page_heading_head) simp
    moreover have "hd x = 35" using 1 by (simp add: ascii_def)
    ultimately show ?thesis by (auto simp: rule_line_eq)
  next
    case 2
    with format_table_head [of t] have "hd x = 124" by simp
    moreover have "hd (page_heading m) = 35" by (subst page_heading_head) simp
    ultimately show ?thesis by (auto simp: rule_line_eq)
  next
    case 3
    then have "hd x = 10" by (simp add: ascii_def)
    moreover have "hd (page_heading m) = 35" by (subst page_heading_head) simp
    ultimately show ?thesis by (auto simp: rule_line_eq)
  qed
qed

lemma table_block_basic_elems:
  assumes "x \<in> set (table_block_basic t)"
  shows "x \<noteq> page_heading m \<and> x \<noteq> rule_line"
proof -
  from assms consider
    "x = ascii ''### '' @ [34920, 26684, 25968, 25454] @ ascii ''\<newline>\<newline>''"
    | row where "x = row_line row @ ascii ''\<newline>''"
    | "x = separator_line (hd t) @ ascii ''\<newline>''"
    | "x = ascii ''\<newline>''"
    by (auto simp: table_block_basic_def split: if_splits)
  then show ?thesis
  proof cases
    case 1
    then have "x ! 2 = 35" "hd x = 35" by (simp_all add: ascii_def)
    moreover have "page_heading m ! 2 = 32" by (subst page_heading_head) simp
    ultimately show ?thesis by (auto simp: rule_line_eq)
  next
    case 2
    then have "hd x = 124" by (subst (asm) row_line_head) simp
    moreover have "hd (page_heading m) = 35" by (subst page_heading_head) simp
    ultimately show ?thesis by (auto simp: rule_line_eq)
  next
    case 3
    then have "hd x = 124" by (subst (asm) separator_line_head) simp
    moreover have "hd (page_heading m) = 35" by (subst page_heading_head) simp
    ultimately show ?thesis by (auto simp: rule_line_eq)
  next
    case 4
    then have "hd x = 10" by (simp add: ascii_def)
    moreover have "hd (page_heading m) = 35" by (subst page_heading_head) simp
    ultimately show ?thesis by (auto simp: rule_line_eq)
  qed
qed

lemma table_block_simple_elems:
  assumes "x \<in> set (table_block_simple it)"
  shows "x \<noteq> page_heading_simple m \<and> x \<noteq> rule_line"
proof -
  obtain i t where it: "it = (i, t)" by (cases it)
  from assms it consider
    "x = ascii ''### Table '' @ str_nat (i + 1) @ ascii ''\<newline>\<newline>''"
    | row where "x = row_line row @ ascii ''\<newline>''"
    | "x = ascii ''\<newline>''"
    by (auto simp: table_block_simple_def split: if_splits)
  then show ?thesis
  proof cases
    case 1
    then have "x ! 2 = 35" "hd x = 35" by (simp_all add: ascii_def)
    moreover have "page_heading_simple m ! 2 = 32" by (subst page_heading_simple_head) simp
    ultimately show ?thesis by (auto simp: rule_line_eq)
  next
    case 2
    then have "hd x = 124" by (subst (asm) row_line_head) simp
    moreover have "hd (page_heading_simple m) = 35" by (subst page_heading_simple_head) simp
    ultimately show ?thesis by (auto simp: rule_line_eq)
  next
    case 3
    then have "hd x = 10" by (simp add: ascii_def)
    moreover have "hd (page_heading_simple m) = 35" by (subst page_heading_simple_head) simp
    ultimately show ?thesis by (auto simp: rule_line_eq)
  qed
qed

lemma table_block_advanced_nonempty:
  "table_nonempty t \<Longrightarrow> format_table t \<noteq> [] \<and> format_table t \<in> set (table_block_advanced (i, t))"
proof -
  assume t: "table_nonempty t"
  then obtain row where "row \<in> set t" "row_nonempty row"
    by (auto simp: table_nonempty_def list_ex_iff)
  then have "filter row_nonempty t \<noteq> []" by (auto simp: filter_empty_conv)
  then obtain h rest where f: "filter row_nonempty t = h # rest" by (cases "filter row_nonempty t") auto
  have "row_line h @ r \<noteq> []" for r by (subst row_line_head) simp
  with t f have "format_table t \<noteq> []" by (simp add: format_table_def)
  with t show ?thesis by (simp add: table_block_advanced_def)
qed

lemma table_block_advanced_written:
  assumes "table_nonempty t"
  shows "ascii ''### '' @ [34920, 26684] @ ascii '' '' @ str_nat (i + 1) @ ascii ''\<newline>\<newline>''
           \<in> set (table_block_advanced (i, t))
         \<and> format_table t \<in> set (table_block_advanced (i, t))
         \<and> ascii ''\<newline>\<newline>'' \<in> set (table_block_advanced (i, t))"
  using assms table_block_advanced_nonempty [OF assms, of i]
  by (simp add: table_block_advanced_def)

lemma table_block_basic_written:
  assumes "table_nonempty t"
  shows "ascii ''### '' @ [34920, 26684, 25968, 25454] @ ascii ''\<newline>\<newline>''
           \<in> set (table_block_basic t)
         \<and> separator_line (hd t) @ ascii ''\<newline>'' \<in> set (table_block_basic t)
         \<and> (\<forall>row \<in> set t. row_line row @ ascii ''\<newline>'' \<in> set (table_block_basic t))
         \<and> ascii ''\<newline>'' \<in> set (table_block_basic t)"
proof -
  from assms obtain h rest where t: "t = h # rest"
    by (cases t) (auto simp: table_nonempty_def)
  with assms show ?thesis by (auto simp: table_block_basic_def)
qed

lemma table_block_simple_written:
  assumes "table_nonempty t"
  shows "ascii ''### Table '' @ str_nat (i + 1) @ ascii ''\<newline>\<newline>''
           \<in> set (table_block_simple (i, t))
         \<and> (\<forall>row \<in> set t. row_nonempty row \<longrightarrow>
               row_line row @ ascii ''\<newline>'' \<in> set (table_block_simple (i, t)))
         \<and> ascii ''\<newline>'' \<in> set (table_block_simple (i, t))"
  using assms by (auto simp: table_block_simple_def)

section \<open>Further properties of the cleaned text\<close>

lemma escape_Nil [simp]: "escape [] = []"
  by (simp add: escape_def replace_char_def)

lemma escape_step:
  "escape (c # cs) =
     (if c = 38 then ascii ''&amp;'' @ escape cs
      else if c = 60 then ascii ''&lt;'' @ escape cs
      else if c = 62 then ascii ''&gt;'' @ escape cs
      else c # escape cs)"
  by (simp add: escape_Cons [of c cs] escape_single)

lemma no_hrun_prepend:
  "no_hrun r \<Longrightarrow> 9 \<notin> set p \<Longrightarrow> 32 \<notin> set p \<Longrightarrow> no_hrun (p @ r)"
  by (induction p) (auto simp: no_hrun_Cons)

lemma escape_head_space: "escape cs = [] \<or> hd (escape cs) \<noteq> 32 \<longleftrightarrow> cs = [] \<or> hd cs \<noteq> 32"
  by (cases cs) (auto simp: escape_step ascii_def)

lemma no_hrun_escape: "no_hrun s \<Longrightarrow> no_hrun (escape s)"
proof (induction s)
  case Nil
  show ?case by simp
next
  case (Cons c cs)
  then have r: "no_hrun (escape cs)" by (simp add: no_hrun_Cons)
  show ?case
  proof (cases "c = 38 \<or> c = 60 \<or> c = 62")
    case True
    then show ?thesis
      using no_hrun_prepend [OF r, of "ascii ''&amp;''"] no_hrun_prepend [OF r, of "ascii ''&lt;''"]
        no_hrun_prepend [OF r, of "ascii ''&gt;''"]
      by (auto simp: escape_step ascii_def)
  next
    case False
    with Cons.prems r escape_head_space [of cs] show ?thesis
      by (simp add: escape_step no_hrun_Cons)
  qed
qed

lemma ws_nl_escape: "ws_nl (escape cs) = None \<longleftrightarrow> ws_nl cs = None"
proof (induction cs)
  case Nil
  show ?case by simp
next
  case (Cons c cs)
  show ?case
  proof (cases "c = 38 \<or> c = 60 \<or> c = 62")
    case True
    then show ?thesis by (auto simp: escape_step ascii_def is_space_def)
  next
    case False
    then have "escape (c # cs) = c # escape cs" by (simp add: escape_step)
    with Cons.IH show ?thesis by (simp only: ws_nl_Cons_None)
  qed
qed

lemma blank_ok_prepend: "blank_ok r \<Longrightarrow> 10 \<notin> set p \<Longrightarrow> blank_ok (p @ r)"
  by (induction p) auto

lemma blank_ok_escape: "blank_ok s \<Longrightarrow> blank_ok (escape s)"
proof (induction s)
  case Nil
  show ?case by simp
next
  case (Cons c cs)
  then have r: "blank_ok (escape cs)" by simp
  show ?case
  proof (cases "c = 38 \<or> c = 60 \<or> c = 62")
    case True
    then show ?thesis
      using blank_ok_prepend [OF r, of "ascii ''&amp;''"] blank_ok_prepend [OF r, of "ascii ''&lt;''"]
        blank_ok_prepend [OF r, of "ascii ''&gt;''"]
      by (auto simp: escape_step ascii_def)
  next
    case False
    then have e: "escape (c # cs) = c # escape cs" by (simp add: escape_step)
    have "ws_nl (escape cs) = None
        \<or> (case escape cs of [] \<Rightarrow> False | d # ds \<Rightarrow> d = 10 \<and> ws_nl ds = None)" if "c = 10"
    proof (cases "ws_nl cs")
      case None
      then show ?thesis by (simp add: ws_nl_escape)
    next
      case (Some x)
      with that Cons.prems obtain ds where "cs = 10 # ds" "ws_nl ds = None"
        by (auto split: list.splits)
      then show ?thesis by (simp add: escape_step ws_nl_escape)
    qed
    with r e show ?thesis by simp
  qed
qed

text \<open>
  What \<open>clean_text\<close> of \<open>advanced_pdf_to_markdown.py\<close> guarantees of its result, for every
  input: \<open>None\<close> and the empty string give the empty string; no tab and no two spaces in
  a row are left; no run of line feeds (with or without whitespace between them) longer
  than one blank line is left; every \<open>&\<close>, \<open><\<close>, \<open>>\<close> is escaped; and the result is trimmed.
\<close>

lemma clean_text_normalises:
  "clean_text None = [] \<and> clean_text (Some []) = []
   \<and> no_hrun (clean_text t) \<and> blank_ok (clean_text t) \<and> escaped_ok (clean_text t)
   \<and> strip (clean_text t) = clean_text t"
proof (cases t)
  case None
  then show ?thesis by (simp add: strip_def lstrip_def)
next
  case (Some s)
  show ?thesis
  proof (cases "s = []")
    case True
    with Some show ?thesis by (simp add: strip_def lstrip_def)
  next
    case False
    have "no_hrun (sub_blank (sub_hspace s))"
      by (simp add: sub_hspace_no_hrun no_hrun_sub_blank)
    then have 1: "no_hrun (strip (escape (sub_blank (sub_hspace s))))"
      by (simp add: no_hrun_escape no_hrun_strip)
    have "blank_ok (sub_blank (sub_hspace s))" by (rule sub_blank_blank_ok)
    then have 2: "blank_ok (strip (escape (sub_blank (sub_hspace s))))"
      by (simp add: blank_ok_escape blank_ok_strip)
    have 3: "escaped_ok (strip (escape (sub_blank (sub_hspace s))))"
      by (simp add: escaped_ok_escape escaped_ok_strip)
    from 1 2 3 Some False show ?thesis by (simp add: strip_idem)
  qed
qed

text \<open>
  \<open>clean_text\<close> of \<open>pdf_to_markdown.py\<close> leaves no line feed at all, so the split at
  blank lines that follows it in the page loop always gives one paragraph.
\<close>

lemma sub_space_no_line_feed: "10 \<notin> set (sub_space s)"
proof (induction s rule: sub_space.induct)
  case 1
  show ?case by simp
next
  case (2 c cs)
  then show ?case by (auto simp: is_space_def)
qed

lemma set_escape: "set (escape s) \<subseteq> set s \<union> set (ascii ''&amp;lt;gt;'')"
  by (induction s) (auto simp: escape_step ascii_def)

lemma clean_text_basic_no_line_feed: "10 \<notin> set (clean_text_basic t)"
proof (cases t)
  case None
  then show ?thesis by simp
next
  case (Some s)
  have "10 \<notin> set (escape (sub_space (strip s)))"
    using set_escape [of "sub_space (strip s)"] sub_space_no_line_feed [of "strip s"]
    by (auto simp: ascii_def)
  with Some show ?thesis by simp
qed

lemma split_nn_no_line_feed: "10 \<notin> set s \<Longrightarrow> split_nn s = [s]"
  by (induction s rule: split_nn.induct) auto

lemma clean_text_basic_one_paragraph: "split_nn (clean_text_basic t) = [clean_text_basic t]"
  using clean_text_basic_no_line_feed by (rule split_nn_no_line_feed)

section \<open>Properties of the conversion\<close>

lemma files_emit [simp]: "files (emit e w) = files w"
  by (simp add: emit_def)

lemma events_emit [simp]: "events (emit e w) = events w @ [e]"
  by (simp add: emit_def)

lemma write_file_cases:
  "write_file E out content w =
     (case open_w E out of
        Some e \<Rightarrow> (Inl e, emit (OutputOpen out) w)
      | None \<Rightarrow>
          (case write_all E out content of
             Some (e, n) \<Rightarrow>
               (Inl e, (emit (OutputOpen out) w)\<lparr>files := (files w)(out \<mapsto> take n content)\<rparr>)
           | None \<Rightarrow> (Inr (), (emit (OutputOpen out) w)\<lparr>files := (files w)(out \<mapsto> content)\<rparr>)))"
  by (simp add: write_file_def Let_def split: option.splits)

lemma contract_advanced:
  "path_exists E p \<Longrightarrow>
   failure_contract (build_document (page_advanced L) document_header E p) E p
     (default_output E p ''_advanced.md'' out) w (pdf_to_markdown_advanced L E p out w)"
  by (auto simp: failure_contract_def pdf_to_markdown_advanced_def
      extract_text_with_advanced_formatting_def write_markdown_def write_file_cases Let_def
      split: sum.splits option.splits prod.splits)

lemma contract_basic:
  "path_exists E p \<Longrightarrow>
   failure_contract (build_document (page_basic L) document_header E p) E p
     (default_output E p ''.md'' out) w (pdf_to_markdown L E p out w)"
  by (auto simp: failure_contract_def pdf_to_markdown_def
      extract_text_with_formatting_def write_markdown_def write_file_cases Let_def
      split: sum.splits option.splits prod.splits)

lemma contract_simple:
  "path_exists E p \<Longrightarrow>
   failure_contract (build_document page_simple (document_header_simple (path_stem E p)) E p) E p
     (default_output E p ''.md'' out) w (pdf_to_markdown_simple E p out w)"
  by (auto simp: failure_contract_def pdf_to_markdown_simple_def
      write_file_cases Let_def
      split: sum.splits option.splits prod.splits)

lemmas io_eval =
  pdf_to_markdown_advanced_def pdf_to_markdown_def pdf_to_markdown_simple_def
  extract_text_with_advanced_formatting_def extract_text_with_formatting_def
  build_document_def page_advanced_def page_basic_def page_simple_def
  render_page_advanced_def render_page_basic_def render_page_simple_def
  paragraph_advanced_def paragraph_basic_def heading_test_basic_def detect_heading_def
  numbered_match_def heading_keywords_def sublist_code
  document_header_def document_header_simple_def page_heading_def page_heading_simple_def
  rule_line_def write_markdown_def write_file_cases default_output_def
  not_found_message_def success_message_def emit_def
  empty_world_def page_hi_def page_broken_def ascii_lib_def truthy_def str_nat.simps

section \<open>The claims\<close>

text \<open>
  C1. Claimed: for all strings \<open>s\<close>, cleaning twice gives the same as cleaning once.
  This fails at \<open>s = "&"\<close>: the first pass gives \<open>&amp;\<close>, whose own ampersand the second
  pass escapes again, in both scripts.
\<close>

theorem clean_text_twice_ampersand:
  "clean_text (Some (ascii ''&'')) = ascii ''&amp;''
   \<and> clean_text (Some (clean_text (Some (ascii ''&'')))) = ascii ''&amp;amp;''
   \<and> clean_text (Some (clean_text (Some (ascii ''&'')))) \<noteq> clean_text (Some (ascii ''&''))
   \<and> clean_text_basic (Some (clean_text_basic (Some (ascii ''&''))))
       \<noteq> clean_text_basic (Some (ascii ''&''))"
  by (simp add: text_eval)

text \<open>
  C1, amended. For every string \<open>s\<close> that contains none of \<open>&\<close>, \<open><\<close>, \<open>>\<close>, cleaning
  twice gives the same as cleaning once, in both scripts.
\<close>

theorem clean_text_idempotent_without_specials:
  assumes "no_special s"
  shows "clean_text (Some (clean_text (Some s))) = clean_text (Some s)
         \<and> clean_text_basic (Some (clean_text_basic (Some s))) = clean_text_basic (Some s)"
proof (rule conjI)
  show "clean_text (Some (clean_text (Some s))) = clean_text (Some s)"
    using assms by (rule clean_text_idem_adv)
  show "clean_text_basic (Some (clean_text_basic (Some s))) = clean_text_basic (Some s)"
    using assms by (rule clean_text_idem_basic)
qed

theorem clean_text_idempotent_witness:
  "no_special (ascii '' a  b'' @ [9, 10, 32, 10, 10] @ ascii ''c '')
   \<and> clean_text (Some (ascii '' a  b'' @ [9, 10, 32, 10, 10] @ ascii ''c '')) = ascii ''a b'' @ [32, 10, 10] @ ascii ''c''
   \<and> clean_text (Some (clean_text (Some (ascii '' a  b'' @ [9, 10, 32, 10, 10] @ ascii ''c ''))))
       = clean_text (Some (ascii '' a  b'' @ [9, 10, 32, 10, 10] @ ascii ''c ''))
   \<and> clean_text_basic (Some (clean_text_basic (Some (ascii '' a  b'' @ [9, 10, 32, 10, 10] @ ascii ''c ''))))
       = clean_text_basic (Some (ascii '' a  b'' @ [9, 10, 32, 10, 10] @ ascii ''c ''))"
proof -
  have n: "no_special (ascii '' a  b'' @ [9, 10, 32, 10, 10] @ ascii ''c '')"
    by (simp add: text_eval)
  have c: "clean_text (Some (ascii '' a  b'' @ [9, 10, 32, 10, 10] @ ascii ''c '')) = ascii ''a b'' @ [32, 10, 10] @ ascii ''c''"
    by (simp add: text_eval)
  from n c clean_text_idempotent_without_specials [OF n] show ?thesis by blast
qed

text \<open>
  C2. Claimed of \<open>clean_text\<close>: three or more line breaks in a row become one blank line,
  so that paragraphs stay apart. \<open>clean_text\<close> of \<open>pdf_to_markdown.py\<close> turns them into one
  space, and the page loop then finds a single paragraph; \<open>clean_text\<close> of
  \<open>advanced_pdf_to_markdown.py\<close> keeps the blank line. For every input, the result of
  the former holds no line feed at all, so its split at blank lines never splits.
\<close>

theorem clean_text_basic_joins_paragraphs:
  "clean_text_basic (Some (ascii ''a\<newline>\<newline>\<newline>b'')) = ascii ''a b''
   \<and> split_nn (clean_text_basic (Some (ascii ''a\<newline>\<newline>\<newline>b''))) = [ascii ''a b'']
   \<and> clean_text (Some (ascii ''a\<newline>\<newline>\<newline>b'')) = ascii ''a\<newline>\<newline>b''
   \<and> split_nn (clean_text (Some (ascii ''a\<newline>\<newline>\<newline>b''))) = [ascii ''a'', ascii ''b'']
   \<and> 10 \<notin> set (clean_text_basic t)
   \<and> split_nn (clean_text_basic t) = [clean_text_basic t]"
proof -
  have "clean_text_basic (Some (ascii ''a\<newline>\<newline>\<newline>b'')) = ascii ''a b''"
    and "clean_text (Some (ascii ''a\<newline>\<newline>\<newline>b'')) = ascii ''a\<newline>\<newline>b''"
    by (simp_all add: text_eval)
  moreover have "split_nn (ascii ''a b'') = [ascii ''a b'']"
    and "split_nn (ascii ''a\<newline>\<newline>b'') = [ascii ''a'', ascii ''b'']"
    by (simp_all add: ascii_def)
  ultimately show ?thesis
    using clean_text_basic_no_line_feed [of t] clean_text_basic_one_paragraph [of t]
    by simp
qed

text \<open>
  C3. Claimed: the table \<open>[["A","B"],["",""],["1","2"]]\<close> is rendered as exactly the
  header \<open>| A | B |\<close>, the separator \<open>| --- | --- |\<close> and one data row \<open>| 1 | 2 |\<close>, the
  all-empty row being filtered out. The table loop of \<open>pdf_to_markdown.py\<close> filters no
  row: what it writes differs from those three lines, and holds the empty row as
  \<open>|  |  |\<close>. The loop of \<open>convert_pdf.py\<close> writes no separator.
\<close>

theorem inline_table_keeps_empty_row:
  "table_block_basic example_table
     \<noteq> [ascii ''### '' @ [34920, 26684, 25968, 25454] @ ascii ''\<newline>\<newline>'',
         ascii ''| A | B |\<newline>'', ascii ''| --- | --- |\<newline>'', ascii ''| 1 | 2 |\<newline>'',
         ascii ''\<newline>'']
   \<and> ascii ''|  |  |\<newline>'' \<in> set (table_block_basic example_table)
   \<and> ascii ''| --- | --- |\<newline>'' \<notin> set (table_block_simple (0, example_table))"
  by (simp add: example_table_def table_eval table_block_basic_def table_block_simple_def
      ascii_def str_nat.simps)

text \<open>
  C3, amended. \<open>format_table\<close> of \<open>advanced_pdf_to_markdown.py\<close> on that table drops the
  row whose cells are all empty and gives exactly three lines: the header \<open>| A | B |\<close>,
  the separator \<open>| --- | --- |\<close> and the data row \<open>| 1 | 2 |\<close>, in this order; on a page they
  follow the heading of table 1. The table loop of \<open>pdf_to_markdown.py\<close> filters no row: it
  writes the header, the separator, the empty row as \<open>|  |  |\<close> and then \<open>| 1 | 2 |\<close>. The
  loop of \<open>convert_pdf.py\<close> drops the empty row and writes no separator: \<open>| A | B |\<close>,
  then \<open>| 1 | 2 |\<close>.
\<close>

theorem table_example_rendered:
  "filter row_nonempty example_table
     = [[Some (ascii ''A''), Some (ascii ''B'')], [Some (ascii ''1''), Some (ascii ''2'')]]
   \<and> format_table example_table
     = join (ascii ''\<newline>'') [ascii ''| A | B |'', ascii ''| --- | --- |'', ascii ''| 1 | 2 |'']
   \<and> table_block_advanced (0, example_table)
     = [ascii ''### '' @ [34920, 26684] @ ascii '' 1\<newline>\<newline>'',
        ascii ''| A | B |\<newline>| --- | --- |\<newline>| 1 | 2 |'',
        ascii ''\<newline>\<newline>'']
   \<and> table_block_basic example_table
     = [ascii ''### '' @ [34920, 26684, 25968, 25454] @ ascii ''\<newline>\<newline>'',
        ascii ''| A | B |\<newline>'', ascii ''| --- | --- |\<newline>'', ascii ''|  |  |\<newline>'',
        ascii ''| 1 | 2 |\<newline>'', ascii ''\<newline>'']
   \<and> table_block_simple (0, example_table)
     = [ascii ''### Table 1\<newline>\<newline>'', ascii ''| A | B |\<newline>'', ascii ''| 1 | 2 |\<newline>'',
        ascii ''\<newline>'']"
  by (simp add: example_table_def table_eval table_block_advanced_def table_block_basic_def
      table_block_simple_def ascii_def str_nat.simps)

text \<open>
  C4. Claimed: the heading test is true exactly when the trimmed text is its own
  upper-casing and shorter than the threshold (50 in one script, 100 in the other), or
  has the numbered pattern, or the text contains a keyword. For \<open>detect_heading\<close>
  (threshold 50) this fails at the single letter \<open>A\<close>, which is its own upper-casing and
  shorter than 50: the function first refuses every text whose trimmed form has fewer
  than two characters. For the inline test of \<open>pdf_to_markdown.py\<close> (threshold 100) it
  fails at the keyword U+89C4 U+683C and at \<open>1. Introduction\<close>: the claimed rule holds of
  both, and neither is a heading there, since \<open>isupper()\<close> is false of a text without a
  capital letter and of one with a lower-case letter.
\<close>

theorem detect_heading_letter_A:
  "\<not> detect_heading ascii_lib (ascii ''A'') \<and> is_heading_claimed 50 ascii_lib (ascii ''A'')
   \<and> \<not> heading_test_basic ascii_lib [35268, 26684]
   \<and> is_heading_claimed 100 ascii_lib [35268, 26684]
   \<and> \<not> heading_test_basic ascii_lib (ascii ''1. Introduction'')
   \<and> is_heading_claimed 100 ascii_lib (ascii ''1. Introduction'')"
proof -
  have a: "\<not> detect_heading ascii_lib (ascii ''A'') \<and> is_heading_claimed 50 ascii_lib (ascii ''A'')"
    by (simp add: detect_heading_def is_heading_claimed_def ascii_lib_def text_eval)
  have k: "\<not> heading_test_basic ascii_lib [35268, 26684]
      \<and> is_heading_claimed 100 ascii_lib [35268, 26684]"
    by (simp add: heading_test_basic_def is_heading_claimed_def ascii_lib_def text_eval)
  have "numbered_match ascii_lib (strip (ascii ''1. Introduction''))"
    by (simp add: numbered_match_def ascii_lib_def text_eval)
  then have "numbered_pattern ascii_lib (strip (ascii ''1. Introduction''))"
    by (simp only: numbered_match_iff)
  then have i: "is_heading_claimed 100 ascii_lib (ascii ''1. Introduction'')"
    by (simp add: is_heading_claimed_def)
  have "\<not> heading_test_basic ascii_lib (ascii ''1. Introduction'')"
    by (simp add: heading_test_basic_def ascii_lib_def text_eval)
  with a k i show ?thesis by blast
qed

text \<open>
  C4, amended. \<open>detect_heading\<close> is true on the keyword U+89C4 U+683C and false on the long
  lower-case sentence, whatever the Unicode tables, and it is true exactly when the
  trimmed text has at least two characters and the claimed rule holds with the threshold
  50. The inline test of \<open>pdf_to_markdown.py\<close> is true exactly when the trimmed text is
  shorter than 100 and \<open>isupper()\<close> holds of it; it has no pattern and no keywords. For
  that test the claimed rule with the threshold 100 is necessary (a text of which
  \<open>isupper()\<close> holds being its own upper-casing) and not sufficient.
\<close>

theorem detect_heading_characterised:
  "(detect_heading L text \<longleftrightarrow> 2 \<le> length (strip text) \<and> is_heading_claimed 50 L text)
   \<and> detect_heading L [35268, 26684]
   \<and> \<not> detect_heading L long_sentence
   \<and> (heading_test_basic L text \<longleftrightarrow> length (strip text) < 100 \<and> str_isupper L (strip text))
   \<and> ((str_isupper L (strip text) \<longrightarrow> str_upper L (strip text) = strip text) \<longrightarrow>
        heading_test_basic L text \<longrightarrow> is_heading_claimed 100 L text)"
  using detect_heading_iff [of L "text"] keyword_heading [of L] long_sentence_not_heading [of L]
  by (simp add: heading_test_basic_def is_heading_claimed_def)

theorem detect_heading_characterised_witness:
  "detect_heading ascii_lib (ascii ''1. Introduction'')
   \<and> 2 \<le> length (strip (ascii ''1. Introduction''))
   \<and> is_heading_claimed 50 ascii_lib (ascii ''1. Introduction'')
   \<and> str_isupper ascii_lib (strip (ascii ''WORLD''))
   \<and> str_upper ascii_lib (strip (ascii ''WORLD'')) = strip (ascii ''WORLD'')
   \<and> heading_test_basic ascii_lib (ascii ''WORLD'')
   \<and> is_heading_claimed 100 ascii_lib (ascii ''WORLD'')"
proof -
  have "detect_heading ascii_lib (ascii ''1. Introduction'')"
    by (simp add: detect_heading_def numbered_match_def ascii_lib_def text_eval)
  with detect_heading_characterised [of ascii_lib "ascii ''1. Introduction''"]
  have 1: "detect_heading ascii_lib (ascii ''1. Introduction'')
      \<and> 2 \<le> length (strip (ascii ''1. Introduction''))
      \<and> is_heading_claimed 50 ascii_lib (ascii ''1. Introduction'')"
    by blast
  have u: "str_isupper ascii_lib (strip (ascii ''WORLD''))"
    "str_upper ascii_lib (strip (ascii ''WORLD'')) = strip (ascii ''WORLD'')"
    by (simp_all add: ascii_lib_def text_eval)
  have h: "heading_test_basic ascii_lib (ascii ''WORLD'')"
    by (simp add: heading_test_basic_def ascii_lib_def text_eval)
  with u detect_heading_characterised [of ascii_lib "ascii ''WORLD''"]
  have "is_heading_claimed 100 ascii_lib (ascii ''WORLD'')" by blast
  with 1 u h show ?thesis by blast
qed

text \<open>
  C5. Claimed: whenever extraction or writing fails, no partial file is produced. When
  the write raises after the output file was opened, each entry point reports failure,
  but the file, which did not exist before, now exists (the opening created it) and
  holds the first characters of the document.
\<close>

theorem partial_file_after_failed_write:
  "files empty_world (ascii ''doc_advanced.md'') = None
   \<and> files empty_world (ascii ''doc.md'') = None
   \<and> \<not> fst (pdf_to_markdown_advanced ascii_lib env_write_fails (ascii ''doc.pdf'') None empty_world)
   \<and> files (snd (pdf_to_markdown_advanced ascii_lib env_write_fails (ascii ''doc.pdf'') None empty_world))
        (ascii ''doc_advanced.md'') = Some (ascii ''# DM4340'')
   \<and> \<not> fst (pdf_to_markdown ascii_lib env_write_fails (ascii ''doc.pdf'') None empty_world)
   \<and> files (snd (pdf_to_markdown ascii_lib env_write_fails (ascii ''doc.pdf'') None empty_world))
        (ascii ''doc.md'') = Some (ascii ''# DM4340'')
   \<and> \<not> fst (pdf_to_markdown_simple env_write_fails (ascii ''doc.pdf'') None empty_world)
   \<and> files (snd (pdf_to_markdown_simple env_write_fails (ascii ''doc.pdf'') None empty_world))
        (ascii ''doc.md'') = Some (ascii ''# doc\<newline>\<newline>*'')"
  by (simp add: io_eval env_write_fails_def text_eval)

text \<open>
  C5, amended. When the input exists, each of the three entry points keeps the contract
  above: a failed extraction gives the failure signal, leaves every file as it was and
  never opens the output; a failed opening of the output gives the failure signal and
  leaves every file as it was; success is reported only when nothing failed; and a write
  that fails after the output was opened gives the failure signal and leaves the output
  file behind with the part of the document that was written.
\<close>

theorem conversion_failure_contract:
  assumes "path_exists E p"
  shows "failure_contract (build_document (page_advanced L) document_header E p) E p
           (default_output E p ''_advanced.md'' out) w (pdf_to_markdown_advanced L E p out w)
         \<and> failure_contract (build_document (page_basic L) document_header E p) E p
           (default_output E p ''.md'' out) w (pdf_to_markdown L E p out w)
         \<and> failure_contract
           (build_document page_simple (document_header_simple (path_stem E p)) E p) E p
           (default_output E p ''.md'' out) w (pdf_to_markdown_simple E p out w)"
  using assms by (simp add: contract_advanced contract_basic contract_simple)

theorem conversion_failure_contract_witness:
  "path_exists env_page_fails (ascii ''doc.pdf'')
   \<and> build_document (page_advanced ascii_lib) document_header env_page_fails (ascii ''doc.pdf'')
       = Inl (ascii ''bad page'')
   \<and> failure_contract
       (build_document (page_advanced ascii_lib) document_header env_page_fails (ascii ''doc.pdf''))
       env_page_fails (ascii ''doc.pdf'')
       (default_output env_page_fails (ascii ''doc.pdf'') ''_advanced.md'' None) empty_world
       (pdf_to_markdown_advanced ascii_lib env_page_fails (ascii ''doc.pdf'') None empty_world)
   \<and> pdf_to_markdown_advanced ascii_lib env_page_fails (ascii ''doc.pdf'') None empty_world
       = (False, \<lparr> files = Map.empty,
                   events = [PdfOpen (ascii ''doc.pdf''),
                             Printed (ascii ''Error processing PDF: bad page'')] \<rparr>)
   \<and> open_w env_open_fails (ascii ''doc_advanced.md'') = Some (ascii ''denied'')
   \<and> \<not> fst (pdf_to_markdown_advanced ascii_lib env_open_fails (ascii ''doc.pdf'') None empty_world)
   \<and> files (snd (pdf_to_markdown_advanced ascii_lib env_open_fails (ascii ''doc.pdf'') None
         empty_world)) = Map.empty
   \<and> fst (pdf_to_markdown_advanced ascii_lib env_fine (ascii ''doc.pdf'') None empty_world)
   \<and> files (snd (pdf_to_markdown_advanced ascii_lib env_fine (ascii ''doc.pdf'') None empty_world))
        (ascii ''doc_advanced.md'')
      = Some (concat (document_header 1 @ [page_heading 1, ascii ''Hi\<newline>\<newline>'', rule_line]))
   \<and> write_all env_write_fails (ascii ''doc_advanced.md'')
        (concat (document_header 1 @ [page_heading 1, ascii ''Hi\<newline>\<newline>'', rule_line]))
      = Some (ascii ''disk full'', 8)
   \<and> \<not> fst (pdf_to_markdown_advanced ascii_lib env_write_fails (ascii ''doc.pdf'') None empty_world)
   \<and> files (snd (pdf_to_markdown_advanced ascii_lib env_write_fails (ascii ''doc.pdf'') None
         empty_world))
      = [ascii ''doc_advanced.md'' \<mapsto> ascii ''# DM4340'']"
proof -
  have e: "path_exists env_page_fails (ascii ''doc.pdf'')"
    by (simp add: env_page_fails_def)
  have d: "build_document (page_advanced ascii_lib) document_header env_page_fails (ascii ''doc.pdf'')
       = Inl (ascii ''bad page'')"
    by (simp add: io_eval env_page_fails_def text_eval)
  have r: "pdf_to_markdown_advanced ascii_lib env_page_fails (ascii ''doc.pdf'') None empty_world
       = (False, \<lparr> files = Map.empty,
                   events = [PdfOpen (ascii ''doc.pdf''),
                             Printed (ascii ''Error processing PDF: bad page'')] \<rparr>)"
    by (simp add: io_eval env_page_fails_def text_eval)
  have 1: "failure_contract
       (build_document (page_advanced ascii_lib) document_header env_page_fails (ascii ''doc.pdf''))
       env_page_fails (ascii ''doc.pdf'')
       (default_output env_page_fails (ascii ''doc.pdf'') ''_advanced.md'' None) empty_world
       (pdf_to_markdown_advanced ascii_lib env_page_fails (ascii ''doc.pdf'') None empty_world)"
    using conversion_failure_contract [OF e, of ascii_lib None empty_world] by blast
  have o: "path_exists env_open_fails (ascii ''doc.pdf'')"
    by (simp add: env_open_fails_def)
  have od: "build_document (page_advanced ascii_lib) document_header env_open_fails (ascii ''doc.pdf'')
       = Inr (concat (document_header 1 @ [page_heading 1, ascii ''Hi\<newline>\<newline>'', rule_line]))"
    by (simp add: build_document_def page_advanced_def render_page_advanced_def
        paragraph_advanced_def detect_heading_def numbered_match_def heading_keywords_def
        sublist_code env_open_fails_def page_hi_def ascii_lib_def truthy_def text_eval)
  have oo: "open_w env_open_fails (default_output env_open_fails (ascii ''doc.pdf'') ''_advanced.md'' None)
       = Some (ascii ''denied'')"
    "open_w env_open_fails (ascii ''doc_advanced.md'') = Some (ascii ''denied'')"
    by (simp_all add: env_open_fails_def)
  have 2: "\<not> fst (pdf_to_markdown_advanced ascii_lib env_open_fails (ascii ''doc.pdf'') None empty_world)
      \<and> files (snd (pdf_to_markdown_advanced ascii_lib env_open_fails (ascii ''doc.pdf'') None
            empty_world)) = files empty_world"
    using conversion_failure_contract [OF o, of ascii_lib None empty_world] od oo
    by (simp add: failure_contract_def)
  have f: "path_exists env_fine (ascii ''doc.pdf'')"
    by (simp add: env_fine_def)
  have fd: "build_document (page_advanced ascii_lib) document_header env_fine (ascii ''doc.pdf'')
       = Inr (concat (document_header 1 @ [page_heading 1, ascii ''Hi\<newline>\<newline>'', rule_line]))"
    by (simp add: build_document_def page_advanced_def render_page_advanced_def
        paragraph_advanced_def detect_heading_def numbered_match_def heading_keywords_def
        sublist_code env_fine_def page_hi_def ascii_lib_def truthy_def text_eval)
  have fo: "default_output env_fine (ascii ''doc.pdf'') ''_advanced.md'' None = ascii ''doc_advanced.md''"
    by (simp add: default_output_def env_fine_def ascii_def)
  have ff: "fst (pdf_to_markdown_advanced ascii_lib env_fine (ascii ''doc.pdf'') None empty_world)"
    by (simp add: pdf_to_markdown_advanced_def extract_text_with_advanced_formatting_def fd
        write_markdown_def write_file_cases) (simp add: env_fine_def)
  have 3: "files (snd (pdf_to_markdown_advanced ascii_lib env_fine (ascii ''doc.pdf'') None empty_world))
        (ascii ''doc_advanced.md'')
      = Some (concat (document_header 1 @ [page_heading 1, ascii ''Hi\<newline>\<newline>'', rule_line]))"
    using conversion_failure_contract [OF f, of ascii_lib None empty_world] ff fd fo
    by (auto simp: failure_contract_def)
  have x: "path_exists env_write_fails (ascii ''doc.pdf'')"
    by (simp add: env_write_fails_def)
  have xd: "build_document (page_advanced ascii_lib) document_header env_write_fails (ascii ''doc.pdf'')
       = Inr (concat (document_header 1 @ [page_heading 1, ascii ''Hi\<newline>\<newline>'', rule_line]))"
    by (simp add: build_document_def page_advanced_def render_page_advanced_def
        paragraph_advanced_def detect_heading_def numbered_match_def heading_keywords_def
        sublist_code env_write_fails_def page_hi_def ascii_lib_def truthy_def text_eval)
  have xo: "default_output env_write_fails (ascii ''doc.pdf'') ''_advanced.md'' None
       = ascii ''doc_advanced.md''"
    by (simp add: default_output_def env_write_fails_def ascii_def)
  have xw: "open_w env_write_fails (ascii ''doc_advanced.md'') = None"
    "write_all env_write_fails (ascii ''doc_advanced.md'')
        (concat (document_header 1 @ [page_heading 1, ascii ''Hi\<newline>\<newline>'', rule_line]))
      = Some (ascii ''disk full'', 8)"
    by (simp_all add: env_write_fails_def)
  have xt: "take 8 (concat (document_header 1 @ [page_heading 1, ascii ''Hi\<newline>\<newline>'', rule_line]))
      = ascii ''# DM4340''"
    by (simp add: document_header_def ascii_def)
  have 4: "\<not> fst (pdf_to_markdown_advanced ascii_lib env_write_fails (ascii ''doc.pdf'') None empty_world)
      \<and> files (snd (pdf_to_markdown_advanced ascii_lib env_write_fails (ascii ''doc.pdf'') None
            empty_world))
        = (files empty_world)(ascii ''doc_advanced.md'' \<mapsto> ascii ''# DM4340'')"
    using conversion_failure_contract [OF x, of ascii_lib None empty_world] xd xo xw xt
    by (simp add: failure_contract_def)
  from e d r 1 oo(2) 2 ff 3 xw(2) 4 show ?thesis by (simp add: empty_world_def)
qed

text \<open>
  C6. In the output of \<open>clean_text\<close>, of either script and for every input, there is no
  \<open><\<close> and no \<open>>\<close>, and every \<open>&\<close> is followed by \<open>amp;\<close>, \<open>lt;\<close> or \<open>gt;\<close>.
\<close>

theorem clean_text_output_escaped:
  "escaped_ok (clean_text t) \<and> escaped_ok (clean_text_basic t)"
  by (cases t) (simp_all add: escaped_ok_escape escaped_ok_strip)

theorem clean_text_output_escaped_witness:
  "clean_text (Some (ascii ''a<b & c>d '')) = ascii ''a&lt;b &amp; c&gt;d''
   \<and> clean_text_basic (Some (ascii ''a<b & c>d '')) = ascii ''a&lt;b &amp; c&gt;d''
   \<and> escaped_ok (clean_text (Some (ascii ''a<b & c>d '')))
   \<and> escaped_ok (clean_text_basic (Some (ascii ''a<b & c>d '')))"
proof -
  have "clean_text (Some (ascii ''a<b & c>d '')) = ascii ''a&lt;b &amp; c&gt;d''"
    and "clean_text_basic (Some (ascii ''a<b & c>d '')) = ascii ''a&lt;b &amp; c&gt;d''"
    by (simp_all add: text_eval)
  with clean_text_output_escaped [of "Some (ascii ''a<b & c>d '')"] show ?thesis by blast
qed

text \<open>
  C7. For every table whose cells are all empty or absent, \<open>format_table\<close> returns the
  empty string, and in each of the three scripts the table adds nothing to the page: no
  heading, no header row, no separator.
\<close>

theorem empty_table_suppressed:
  assumes "\<forall>row \<in> set t. \<forall>c \<in> set row. c = None \<or> c = Some []"
  shows "format_table t = []
         \<and> table_block_advanced (i, t) = [] \<and> table_block_basic t = []
         \<and> table_block_simple (i, t) = []
         \<and> render_page_advanced L n text [t] = render_page_advanced L n text []
         \<and> render_page_basic L n text [t] = render_page_basic L n text []
         \<and> render_page_simple n text [t] = render_page_simple n text []"
proof -
  from assms have "\<not> table_nonempty t" by (rule all_empty_not_nonempty)
  then show ?thesis
    by (simp add: format_table_def table_block_advanced_def table_block_basic_def
        table_block_simple_def render_page_advanced_def render_page_basic_def
        render_page_simple_def enumerate_eq_zip)
qed

theorem empty_table_suppressed_witness:
  "list_all (list_all (\<lambda>c. c = None \<or> c = Some [])) [[None, Some []], [], [Some []]]
   \<and> format_table [[None, Some []], [], [Some []]] = []
   \<and> render_page_advanced ascii_lib 1 (Some (ascii ''Hi'')) [[[None, Some []], [], [Some []]]]
      = [page_heading 1, ascii ''Hi\<newline>\<newline>'', rule_line]"
proof -
  have h: "\<forall>row \<in> set [[None, Some []], [], [Some []]]. \<forall>c \<in> set row. c = None \<or> c = Some ([]::ustring)"
    by simp
  have "render_page_advanced ascii_lib 1 (Some (ascii ''Hi'')) [] = [page_heading 1, ascii ''Hi\<newline>\<newline>'', rule_line]"
    by (simp add: render_page_advanced_def paragraph_advanced_def detect_heading_def
        numbered_match_def heading_keywords_def sublist_code ascii_lib_def truthy_def text_eval)
  with h empty_table_suppressed [OF h, of 0 ascii_lib 1 "Some (ascii ''Hi'')"] show ?thesis
    by simp
qed

text \<open>
  C8. When the input path does not exist, each entry point prints the message and returns
  the failure signal, and that is all: the new world is the old one with the printed line
  added, so no attempt to open the PDF or the output is logged and no file changes.
\<close>

theorem missing_input:
  assumes "\<not> path_exists E p"
  shows "pdf_to_markdown_advanced L E p out w = (False, emit (Printed (not_found_message p)) w)
         \<and> pdf_to_markdown L E p out w = (False, emit (Printed (not_found_message p)) w)
         \<and> pdf_to_markdown_simple E p out w = (False, emit (Printed (not_found_message p)) w)
         \<and> files (emit (Printed (not_found_message p)) w) = files w
         \<and> events (emit (Printed (not_found_message p)) w)
             = events w @ [Printed (not_found_message p)]"
  using assms
  by (simp add: pdf_to_markdown_advanced_def pdf_to_markdown_def pdf_to_markdown_simple_def)

theorem missing_input_witness:
  "\<not> path_exists env_missing (ascii ''doc.pdf'')
   \<and> pdf_to_markdown_simple env_missing (ascii ''doc.pdf'') None empty_world
       = (False, \<lparr> files = Map.empty,
                   events = [Printed (ascii ''Error: PDF file '' @ [39] @ ascii ''doc.pdf''
                                      @ [39] @ ascii '' not found.'')] \<rparr>)
   \<and> pdf_to_markdown_advanced ascii_lib env_missing (ascii ''doc.pdf'') None empty_world
       = pdf_to_markdown_simple env_missing (ascii ''doc.pdf'') None empty_world"
proof -
  have e: "\<not> path_exists env_missing (ascii ''doc.pdf'')"
    by (simp add: env_missing_def)
  have "emit (Printed (not_found_message (ascii ''doc.pdf''))) empty_world
      = \<lparr> files = Map.empty,
          events = [Printed (ascii ''Error: PDF file '' @ [39] @ ascii ''doc.pdf''
                             @ [39] @ ascii '' not found.'')] \<rparr>"
    by (simp add: emit_def empty_world_def not_found_message_def)
  with e missing_input [OF e, of ascii_lib None empty_world] show ?thesis by simp
qed

text \<open>
  C9. For every string whose trimmed form has fewer than two characters (the empty string
  included), \<open>detect_heading\<close> is false; so it is on the letter \<open>A\<close>, which is its own
  upper-casing and shorter than 50.
\<close>

theorem detect_heading_too_short:
  "length (strip text) < 2 \<Longrightarrow> \<not> detect_heading L text"
  by (simp add: detect_heading_def)

theorem detect_heading_too_short_witness:
  "length (strip (ascii ''A'')) < 2
   \<and> str_upper ascii_lib (strip (ascii ''A'')) = strip (ascii ''A'')
   \<and> length (strip (ascii ''A'')) < 50
   \<and> \<not> detect_heading ascii_lib (ascii ''A'')"
proof -
  have s: "strip (ascii ''A'') = [65]" by (simp add: text_eval)
  then have l: "length (strip (ascii ''A'')) < 2" by simp
  from s have "str_upper ascii_lib (strip (ascii ''A'')) = strip (ascii ''A'')"
    by (simp add: ascii_lib_def)
  with l detect_heading_too_short [OF l, of ascii_lib] show ?thesis by simp
qed

text \<open>
  C10. For every page whose text is absent or empty, all that is appended is what the
  tables give: the page heading (of any number) and the rule are not among the appended
  strings, and every table that is not empty is still written, in each of the three
  scripts: its heading, its rows (in \<open>convert_pdf.py\<close> those that are not empty; in
  \<open>advanced_pdf_to_markdown.py\<close> as \<open>format_table\<close> gives them) and the closing line
  break. A page without text and with one such table is exactly that table's block.
\<close>

theorem textless_page:
  assumes "text = None \<or> text = Some []"
  shows "render_page_advanced L n text tables = concat (map table_block_advanced (enumerate 0 tables))
         \<and> render_page_basic L n text tables = concat (map table_block_basic tables)
         \<and> page_heading m \<notin> set (render_page_advanced L n text tables)
         \<and> rule_line \<notin> set (render_page_advanced L n text tables)
         \<and> page_heading m \<notin> set (render_page_basic L n text tables)
         \<and> rule_line \<notin> set (render_page_basic L n text tables)
         \<and> render_page_simple n text tables = concat (map table_block_simple (enumerate 0 tables))
         \<and> page_heading_simple m \<notin> set (render_page_simple n text tables)
         \<and> rule_line \<notin> set (render_page_simple n text tables)
         \<and> (\<forall>t \<in> set tables. table_nonempty t \<longrightarrow>
               format_table t \<noteq> [] \<and> format_table t \<in> set (render_page_advanced L n text tables)
               \<and> row_line (hd t) @ ascii ''\<newline>'' \<in> set (render_page_basic L n text tables))
         \<and> (\<forall>i < length tables. table_nonempty (tables ! i) \<longrightarrow>
               ascii ''### '' @ [34920, 26684] @ ascii '' '' @ str_nat (i + 1) @ ascii ''\<newline>\<newline>''
                 \<in> set (render_page_advanced L n text tables)
               \<and> format_table (tables ! i) \<in> set (render_page_advanced L n text tables)
               \<and> ascii ''\<newline>\<newline>'' \<in> set (render_page_advanced L n text tables)
               \<and> ascii ''### '' @ [34920, 26684, 25968, 25454] @ ascii ''\<newline>\<newline>''
                 \<in> set (render_page_basic L n text tables)
               \<and> separator_line (hd (tables ! i)) @ ascii ''\<newline>''
                 \<in> set (render_page_basic L n text tables)
               \<and> (\<forall>row \<in> set (tables ! i).
                     row_line row @ ascii ''\<newline>'' \<in> set (render_page_basic L n text tables))
               \<and> ascii ''\<newline>'' \<in> set (render_page_basic L n text tables)
               \<and> ascii ''### Table '' @ str_nat (i + 1) @ ascii ''\<newline>\<newline>''
                 \<in> set (render_page_simple n text tables)
               \<and> (\<forall>row \<in> set (tables ! i). row_nonempty row \<longrightarrow>
                     row_line row @ ascii ''\<newline>'' \<in> set (render_page_simple n text tables))
               \<and> ascii ''\<newline>'' \<in> set (render_page_simple n text tables))
         \<and> (table_nonempty t \<longrightarrow>
               render_page_advanced L n text [t]
                 = [ascii ''### '' @ [34920, 26684] @ ascii '' 1\<newline>\<newline>'', format_table t,
                    ascii ''\<newline>\<newline>'']
               \<and> render_page_basic L n text [t]
                 = [ascii ''### '' @ [34920, 26684, 25968, 25454] @ ascii ''\<newline>\<newline>'',
                    row_line (hd t) @ ascii ''\<newline>'', separator_line (hd t) @ ascii ''\<newline>'']
                   @ map (\<lambda>row. row_line row @ ascii ''\<newline>'') (tl t) @ [ascii ''\<newline>'']
               \<and> render_page_simple n text [t]
                 = [ascii ''### Table 1\<newline>\<newline>'']
                   @ map (\<lambda>row. row_line row @ ascii ''\<newline>'') (filter row_nonempty t)
                   @ [ascii ''\<newline>''])"
proof -
  from assms have nt: "\<not> truthy text" by (auto simp: truthy_def)
  then have a: "render_page_advanced L n text tables
      = concat (map table_block_advanced (enumerate 0 tables))"
    by (simp add: render_page_advanced_def)
  from nt have b: "render_page_basic L n text tables = concat (map table_block_basic tables)"
    by (simp add: render_page_basic_def)
  have c: "page_heading m \<notin> set (render_page_advanced L n text tables)
      \<and> rule_line \<notin> set (render_page_advanced L n text tables)"
    unfolding a using table_block_advanced_elems by fastforce
  have d: "page_heading m \<notin> set (render_page_basic L n text tables)
      \<and> rule_line \<notin> set (render_page_basic L n text tables)"
    unfolding b using table_block_basic_elems by fastforce
  from assms have s: "render_page_simple n text tables
      = concat (map table_block_simple (enumerate 0 tables))"
    by (auto simp: render_page_simple_def)
  have s': "page_heading_simple m \<notin> set (render_page_simple n text tables)
      \<and> rule_line \<notin> set (render_page_simple n text tables)"
    unfolding s using table_block_simple_elems by fastforce
  have sub: "set (table_block_advanced (i, tables ! i)) \<subseteq> set (render_page_advanced L n text tables)
      \<and> set (table_block_basic (tables ! i)) \<subseteq> set (render_page_basic L n text tables)
      \<and> set (table_block_simple (i, tables ! i)) \<subseteq> set (render_page_simple n text tables)"
    if "i < length tables" for i
  proof -
    from that have "(i, tables ! i) \<in> set (enumerate 0 tables)"
      by (simp add: in_set_enumerate_eq)
    moreover from that have "tables ! i \<in> set tables" by simp
    ultimately show ?thesis unfolding a b s by auto
  qed
  have e: "format_table t \<noteq> [] \<and> format_table t \<in> set (render_page_advanced L n text tables)
      \<and> row_line (hd t) @ ascii ''\<newline>'' \<in> set (render_page_basic L n text tables)"
    if t: "t \<in> set tables" "table_nonempty t" for t
  proof -
    from t(1) obtain i where i: "i < length tables" "tables ! i = t"
      by (auto simp: in_set_conv_nth)
    from t(2) have "hd t \<in> set t" by (cases t) (auto simp: table_nonempty_def)
    with sub [OF i(1)] i(2) table_block_advanced_nonempty [OF t(2), of i]
      table_block_basic_written [OF t(2)]
    show ?thesis by auto
  qed
  have f: "ascii ''### '' @ [34920, 26684] @ ascii '' '' @ str_nat (i + 1) @ ascii ''\<newline>\<newline>''
                 \<in> set (render_page_advanced L n text tables)
               \<and> format_table (tables ! i) \<in> set (render_page_advanced L n text tables)
               \<and> ascii ''\<newline>\<newline>'' \<in> set (render_page_advanced L n text tables)
               \<and> ascii ''### '' @ [34920, 26684, 25968, 25454] @ ascii ''\<newline>\<newline>''
                 \<in> set (render_page_basic L n text tables)
               \<and> separator_line (hd (tables ! i)) @ ascii ''\<newline>''
                 \<in> set (render_page_basic L n text tables)
               \<and> (\<forall>row \<in> set (tables ! i).
                     row_line row @ ascii ''\<newline>'' \<in> set (render_page_basic L n text tables))
               \<and> ascii ''\<newline>'' \<in> set (render_page_basic L n text tables)
               \<and> ascii ''### Table '' @ str_nat (i + 1) @ ascii ''\<newline>\<newline>''
                 \<in> set (render_page_simple n text tables)
               \<and> (\<forall>row \<in> set (tables ! i). row_nonempty row \<longrightarrow>
                     row_line row @ ascii ''\<newline>'' \<in> set (render_page_simple n text tables))
               \<and> ascii ''\<newline>'' \<in> set (render_page_simple n text tables)"
    if i: "i < length tables" "table_nonempty (tables ! i)" for i
    using sub [OF i(1)] table_block_advanced_written [OF i(2), of i]
      table_block_basic_written [OF i(2)] table_block_simple_written [OF i(2), of i]
    by blast
  have g: "render_page_advanced L n text [t]
                 = [ascii ''### '' @ [34920, 26684] @ ascii '' 1\<newline>\<newline>'', format_table t,
                    ascii ''\<newline>\<newline>'']
               \<and> render_page_basic L n text [t]
                 = [ascii ''### '' @ [34920, 26684, 25968, 25454] @ ascii ''\<newline>\<newline>'',
                    row_line (hd t) @ ascii ''\<newline>'', separator_line (hd t) @ ascii ''\<newline>'']
                   @ map (\<lambda>row. row_line row @ ascii ''\<newline>'') (tl t) @ [ascii ''\<newline>'']
               \<and> render_page_simple n text [t]
                 = [ascii ''### Table 1\<newline>\<newline>'']
                   @ map (\<lambda>row. row_line row @ ascii ''\<newline>'') (filter row_nonempty t)
                   @ [ascii ''\<newline>'']"
    if t: "table_nonempty t"
  proof -
    from table_block_advanced_nonempty [OF t, of 0] have "format_table t \<noteq> []" by simp
    with nt assms t show ?thesis
      by (auto simp: render_page_advanced_def render_page_basic_def render_page_simple_def
          table_block_advanced_def table_block_basic_def table_block_simple_def
          enumerate_eq_zip str_nat.simps ascii_def)
  qed
  from a b c d s s' e f g show ?thesis by blast
qed

theorem textless_page_witness:
  "table_nonempty example_table
   \<and> render_page_advanced ascii_lib 2 None [example_table]
     = [ascii ''### '' @ [34920, 26684] @ ascii '' 1\<newline>\<newline>'',
        ascii ''| A | B |\<newline>| --- | --- |\<newline>| 1 | 2 |'',
        ascii ''\<newline>\<newline>'']
   \<and> render_page_basic ascii_lib 2 None [example_table]
     = [ascii ''### '' @ [34920, 26684, 25968, 25454] @ ascii ''\<newline>\<newline>'',
        ascii ''| A | B |\<newline>'', ascii ''| --- | --- |\<newline>'', ascii ''|  |  |\<newline>'',
        ascii ''| 1 | 2 |\<newline>'', ascii ''\<newline>'']
   \<and> render_page_simple 2 None [example_table]
     = [ascii ''### Table 1\<newline>\<newline>'', ascii ''| A | B |\<newline>'', ascii ''| 1 | 2 |\<newline>'',
        ascii ''\<newline>'']
   \<and> page_heading 2 \<notin> set (render_page_advanced ascii_lib 2 None [example_table])
   \<and> rule_line \<notin> set (render_page_advanced ascii_lib 2 None [example_table])
   \<and> page_heading 2 \<notin> set (render_page_basic ascii_lib 2 None [example_table])
   \<and> page_heading_simple 2 \<notin> set (render_page_simple 2 None [example_table])
   \<and> format_table example_table \<in> set (render_page_advanced ascii_lib 2 None [example_table])"
proof -
  have ne: "table_nonempty example_table"
    by (simp add: example_table_def table_eval ascii_def)
  have ft: "format_table example_table = ascii ''| A | B |\<newline>| --- | --- |\<newline>| 1 | 2 |''"
    by (simp add: example_table_def table_eval ascii_def)
  have rows: "row_line (hd example_table) = ascii ''| A | B |''"
    "separator_line (hd example_table) = ascii ''| --- | --- |''"
    "map (\<lambda>row. row_line row @ ascii ''\<newline>'') (tl example_table)
       = [ascii ''|  |  |\<newline>'', ascii ''| 1 | 2 |\<newline>'']"
    "map (\<lambda>row. row_line row @ ascii ''\<newline>'') (filter row_nonempty example_table)
       = [ascii ''| A | B |\<newline>'', ascii ''| 1 | 2 |\<newline>'']"
    by (simp_all add: example_table_def table_eval ascii_def)
  note T = textless_page [of None ascii_lib 2 "[example_table]" 2 example_table]
  from T ne have eqs: "render_page_advanced ascii_lib 2 None [example_table]
                 = [ascii ''### '' @ [34920, 26684] @ ascii '' 1\<newline>\<newline>'',
                    format_table example_table, ascii ''\<newline>\<newline>'']"
     "render_page_basic ascii_lib 2 None [example_table]
                 = [ascii ''### '' @ [34920, 26684, 25968, 25454] @ ascii ''\<newline>\<newline>'',
                    row_line (hd example_table) @ ascii ''\<newline>'',
                    separator_line (hd example_table) @ ascii ''\<newline>'']
                   @ map (\<lambda>row. row_line row @ ascii ''\<newline>'') (tl example_table)
                   @ [ascii ''\<newline>'']"
     "render_page_simple 2 None [example_table]
                 = [ascii ''### Table 1\<newline>\<newline>'']
                   @ map (\<lambda>row. row_line row @ ascii ''\<newline>'') (filter row_nonempty example_table)
                   @ [ascii ''\<newline>'']"
    by blast+
  from T have non: "page_heading 2 \<notin> set (render_page_advanced ascii_lib 2 None [example_table])"
    "rule_line \<notin> set (render_page_advanced ascii_lib 2 None [example_table])"
    "page_heading 2 \<notin> set (render_page_basic ascii_lib 2 None [example_table])"
    "page_heading_simple 2 \<notin> set (render_page_simple 2 None [example_table])"
    by blast+
  from eqs(1) have mem: "format_table example_table
      \<in> set (render_page_advanced ascii_lib 2 None [example_table])"
    by simp
  have 1: "render_page_advanced ascii_lib 2 None [example_table]
     = [ascii ''### '' @ [34920, 26684] @ ascii '' 1\<newline>\<newline>'',
        ascii ''| A | B |\<newline>| --- | --- |\<newline>| 1 | 2 |'',
        ascii ''\<newline>\<newline>'']"
    using eqs(1) ft by simp
  have 2: "render_page_basic ascii_lib 2 None [example_table]
     = [ascii ''### '' @ [34920, 26684, 25968, 25454] @ ascii ''\<newline>\<newline>'',
        ascii ''| A | B |\<newline>'', ascii ''| --- | --- |\<newline>'', ascii ''|  |  |\<newline>'',
        ascii ''| 1 | 2 |\<newline>'', ascii ''\<newline>'']"
    using eqs(2) rows by (simp add: ascii_def)
  have 3: "render_page_simple 2 None [example_table]
     = [ascii ''### Table 1\<newline>\<newline>'', ascii ''| A | B |\<newline>'', ascii ''| 1 | 2 |\<newline>'',
        ascii ''\<newline>'']"
    using eqs(3) rows by (simp add: ascii_def)
  from ne 1 2 3 non mem show ?thesis by blast
qed

end
